theory Spec2Isabelle
  imports Main "HOL-Library.Sublist"
begin

section \<open>Python values used by \<open>tools/organize_crp.py\<close>\<close>

text \<open>
  The organizer reads JSON documents and indexes them with Python's dynamic operations.
  A JSON document is modelled by the value \<open>json.load\<close> returns: \<open>None\<close>, a bool, an
  int, a str, a list, or a dict given by its items in insertion order. JSON numbers are
  taken to be integers. Every exception the source can raise is a value of \<open>error\<close>;
  a computation that can raise returns \<open>error + 'a\<close> with \<open>Inl\<close> for the exception.

  A character of the model is a code point below 256, and a string is a Python \<open>str\<close> of
  such code points; a \<open>str\<close> with a code point of 256 or more is not a value of the
  model.
\<close>

datatype json =
    JNull
  | JBool bool
  | JNum int
  | JStr string
  | JArr "json list"
  | JObj "(string \<times> json) list"

datatype error =
    KeyError
  | TypeError
  | IndexError
  | AttributeError
  | ValueError string
  | FileExistsError
  | NotADirectoryError
  | FileNotFoundError
  | IsADirectoryError

text \<open>Keys of a Python dict: the hashable JSON values, with \<open>True == 1\<close> and
  \<open>False == 0\<close> as Python compares them.\<close>

datatype hkey = KNone | KInt int | KStr string

fun to_key :: "json \<Rightarrow> error + hkey" where
  "to_key JNull = Inr KNone"
| "to_key (JBool b) = Inr (KInt (if b then 1 else 0))"
| "to_key (JNum n) = Inr (KInt n)"
| "to_key (JStr s) = Inr (KStr s)"
| "to_key (JArr xs) = Inl TypeError"
| "to_key (JObj kvs) = Inl TypeError"

text \<open>\<open>v[k]\<close> for a string \<open>k\<close>: only a dict can be indexed by a string.\<close>

fun subscript :: "json \<Rightarrow> string \<Rightarrow> error + json" where
  "subscript (JObj kvs) k = (case map_of kvs k of None \<Rightarrow> Inl KeyError | Some v \<Rightarrow> Inr v)"
| "subscript v k = Inl TypeError"

text \<open>\<open>v[0]\<close>: the first element of a list, the first character of a string; a dict
  read from JSON has string keys only, so \<open>0\<close> is never one of them.\<close>

fun subscript0 :: "json \<Rightarrow> error + json" where
  "subscript0 (JArr xs) = (case xs of [] \<Rightarrow> Inl IndexError | x # _ \<Rightarrow> Inr x)"
| "subscript0 (JStr s) = (case s of [] \<Rightarrow> Inl IndexError | c # _ \<Rightarrow> Inr (JStr [c]))"
| "subscript0 (JObj kvs) = Inl KeyError"
| "subscript0 v = Inl TypeError"

text \<open>\<open>for x in v\<close>: a list yields its elements, a dict its keys, a string its
  characters; anything else is not iterable.\<close>

fun py_iter :: "json \<Rightarrow> error + json list" where
  "py_iter (JArr xs) = Inr xs"
| "py_iter (JObj kvs) = Inr (map (\<lambda>(k, v). JStr k) kvs)"
| "py_iter (JStr s) = Inr (map (\<lambda>c. JStr [c]) s)"
| "py_iter v = Inl TypeError"

fun py_len :: "json \<Rightarrow> error + nat" where
  "py_len (JArr xs) = Inr (length xs)"
| "py_len (JObj kvs) = Inr (length kvs)"
| "py_len (JStr s) = Inr (length s)"
| "py_len v = Inl TypeError"

text \<open>Truthiness, as \<open>if v:\<close> tests it.\<close>

fun truthy :: "json \<Rightarrow> bool" where
  "truthy JNull = False"
| "truthy (JBool b) = b"
| "truthy (JNum n) = (n \<noteq> 0)"
| "truthy (JStr s) = (s \<noteq> [])"
| "truthy (JArr xs) = (xs \<noteq> [])"
| "truthy (JObj kvs) = (kvs \<noteq> [])"

subsection \<open>Strings\<close>

text \<open>\<open>sub in s\<close> on strings.\<close>

fun contains :: "string \<Rightarrow> string \<Rightarrow> bool" where
  "contains sub [] = (sub = [])"
| "contains sub (c # cs) = (prefix sub (c # cs) \<or> contains sub cs)"

definition endswith :: "string \<Rightarrow> string \<Rightarrow> bool" where
  "endswith s suf = suffix suf s"

text \<open>\<open>s.partition(sep)\<close>: the text before and after the first occurrence of
  \<open>sep\<close>, or \<open>None\<close> when there is none.\<close>

fun partition_str :: "string \<Rightarrow> string \<Rightarrow> (string \<times> string) option" where
  "partition_str sep [] = (if sep = [] then Some ([], []) else None)"
| "partition_str sep (c # cs) =
     (if prefix sep (c # cs) then Some ([], drop (length sep) (c # cs))
      else (case partition_str sep cs of
              None \<Rightarrow> None
            | Some (b, a) \<Rightarrow> Some (c # b, a)))"

lemma partition_str_length:
  "partition_str sep s = Some (b, a) \<Longrightarrow> length a + length sep \<le> length s"
proof (induction s arbitrary: b)
  case Nil
  then show ?case by (simp split: if_splits)
next
  case (Cons c cs)
  show ?case
  proof (cases "prefix sep (c # cs)")
    case True
    with Cons.prems have "a = drop (length sep) (c # cs)" by simp
    moreover from True have "length sep \<le> length (c # cs)" by (rule prefix_length_le)
    ultimately show ?thesis by simp
  next
    case False
    with Cons.prems obtain b' where "partition_str sep cs = Some (b', a)"
      by (auto split: option.splits)
    from Cons.IH [OF this] show ?thesis by simp
  qed
qed

text \<open>\<open>s.split(sep)\<close> for a non-empty separator (the source only splits at the
  constants \<open>'entry_'\<close> and \<open>'_'\<close>).\<close>

function py_split :: "string \<Rightarrow> string \<Rightarrow> string list" where
  "py_split sep s =
     (if sep = [] then [s]
      else (case partition_str sep s of
              None \<Rightarrow> [s]
            | Some (b, a) \<Rightarrow> b # py_split sep a))"
  by pat_completeness auto
termination
proof (relation "measure (\<lambda>(sep, s). length s)")
  show "wf (measure (\<lambda>(sep, s). length s))" by simp
next
  fix sep s :: string and x2 b a
  assume "sep \<noteq> []" and "partition_str sep s = Some x2" and "(b, a) = x2"
  then have "length a + length sep \<le> length s"
    using partition_str_length by metis
  moreover from \<open>sep \<noteq> []\<close> have "0 < length sep" by simp
  ultimately have "length a < length s" by linarith
  then show "((sep, a), (sep, s)) \<in> measure (\<lambda>(sep, s). length s)" by simp
qed

declare py_split.simps [simp del]

text \<open>\<open>str.isspace\<close> on a character below 256, which is what \<open>str.strip()\<close> removes at
  both ends.\<close>

definition is_space :: "char \<Rightarrow> bool" where
  "is_space c = ((of_char c :: nat) \<in> set [9, 10, 11, 12, 13, 28, 29, 30, 31, 32, 133, 160])"

definition py_strip :: "string \<Rightarrow> string" where
  "py_strip s = rev (dropWhile is_space (rev (dropWhile is_space s)))"

text \<open>\<open>int(s)\<close> on a string. The interpreter first rewrites the characters from 127 on
  (a white-space character to a blank, a decimal digit to its ASCII digit, of which
  there is none between 127 and 255, anything else to an invalid character) and leaves
  the characters below 127 alone; then it skips the leading C white space, reads an
  optional sign and the digits, in which single underscores may separate digits, skips
  the trailing C white space and requires the end of the text. So the characters
  skipped at the two ends are the six of C and the code points 133 and 160, but not 28
  to 31. (A path is shorter than the 4300 digits newer interpreters accept at most.)\<close>

definition int_space :: "char \<Rightarrow> bool" where
  "int_space c = ((of_char c :: nat) \<in> set [9, 10, 11, 12, 13, 32, 133, 160])"

definition is_digit :: "char \<Rightarrow> bool" where
  "is_digit c = ((48::nat) \<le> of_char c \<and> of_char c \<le> (57::nat))"

text \<open>The digits of an integer literal: a digit first and last, and no two underscores
  in a row.\<close>

fun int_body :: "string \<Rightarrow> bool" where
  "int_body [] = False"
| "int_body [c] = is_digit c"
| "int_body (c # d # cs) =
     (is_digit c \<and> (if d = CHR ''_'' then int_body cs else int_body (d # cs)))"

definition digits_val :: "string \<Rightarrow> int" where
  "digits_val ds = foldl (\<lambda>acc c. 10 * acc + (int (of_char c :: nat) - 48)) 0 ds"

definition py_int :: "string \<Rightarrow> int option" where
  "py_int s =
     (let t = rev (dropWhile int_space (rev (dropWhile int_space s)));
          neg = (t \<noteq> [] \<and> hd t = CHR ''-'');
          ds = (if t \<noteq> [] \<and> (hd t = CHR ''-'' \<or> hd t = CHR ''+'') then tl t else t)
      in if int_body ds
         then Some (if neg then - digits_val (filter (\<lambda>c. c \<noteq> CHR ''_'') ds)
                    else digits_val (filter (\<lambda>c. c \<noteq> CHR ''_'') ds))
         else None)"

subsection \<open>Paths\<close>

text \<open>\<open>os.path.join(a, b)\<close> and \<open>os.path.basename(p)\<close> on POSIX.\<close>

definition py_join :: "string \<Rightarrow> string \<Rightarrow> string" where
  "py_join a b =
     (if b \<noteq> [] \<and> hd b = CHR ''/'' then b
      else if a = [] \<or> last a = CHR ''/'' then a @ b
      else a @ ''/'' @ b)"

definition basename :: "string \<Rightarrow> string" where
  "basename p = rev (takeWhile (\<lambda>c. c \<noteq> CHR ''/'') (rev p))"

text \<open>\<open>os.path.normpath\<close> on POSIX: empty and \<open>.\<close> components go, a \<open>..\<close> takes the
  component before it away (at the root it just goes), and exactly two leading slashes
  are kept.\<close>

fun norm_comps :: "nat \<Rightarrow> string list \<Rightarrow> string list \<Rightarrow> string list" where
  "norm_comps initial_slashes [] new_comps = new_comps"
| "norm_comps initial_slashes (part # parts) new_comps =
     (if part = [] \<or> part = ''.'' then norm_comps initial_slashes parts new_comps
      else if part \<noteq> ''..'' \<or> (initial_slashes = 0 \<and> new_comps = [])
              \<or> (new_comps \<noteq> [] \<and> last new_comps = ''..'')
        then norm_comps initial_slashes parts (new_comps @ [part])
      else if new_comps \<noteq> [] then norm_comps initial_slashes parts (butlast new_comps)
      else norm_comps initial_slashes parts new_comps)"

fun join_slash :: "string list \<Rightarrow> string" where
  "join_slash [] = []"
| "join_slash [c] = c"
| "join_slash (c # d # cs) = c @ ''/'' @ join_slash (d # cs)"

definition normpath :: "string \<Rightarrow> string" where
  "normpath path =
     (if path = [] then ''.''
      else
        let initial_slashes =
              (if prefix ''/'' path
               then (if prefix ''//'' path \<and> \<not> prefix ''///'' path then 2 else 1)
               else (0::nat));
            parts = norm_comps initial_slashes (py_split ''/'' path) [];
            joined = replicate initial_slashes CHR ''/'' @ join_slash parts
        in if joined = [] then ''.'' else joined)"

text \<open>\<open>os.path.abspath\<close> with the current directory \<open>cwd\<close>.\<close>

definition py_abspath :: "string \<Rightarrow> string \<Rightarrow> string" where
  "py_abspath cwd path = normpath (if prefix ''/'' path then path else py_join cwd path)"

section \<open>The file system\<close>

text \<open>
  A run works on one input directory and one output tree. The input directory is the
  list of its entries (name and node) in the order \<open>os.listdir\<close> enumerates them; a
  regular file carries its bytes and the value \<open>safe_read_json\<close> obtains from them
  (\<open>JNull\<close> when neither the UTF-8 nor the Latin-1 attempt parses, and for the JSON
  document \<open>null\<close>: the source cannot tell the two apart either). The output tree is
  the set of \<open>instances/instance_<i>\<close> directories that exist, each with its files, and
  the four \<open>unassigned\<close> buckets. \<open>copy_log\<close> records every copy performed, in order.

  Paths are the strings the program builds. The input directory is given as
  \<open>os.path.abspath\<close> returns it, and an explicit output directory as an absolute
  normalised path. A directory that \<open>os.makedirs\<close> creates directly below the input
  directory becomes one of its entries (appended to the enumeration). The input
  directory itself is taken not to be the \<open>instances\<close> directory, an instance directory
  or a bucket, and instance directories and buckets hold regular files only, as the
  program leaves them. The process can open every regular file of the input directory;
  what it cannot open for reading is a directory.
\<close>

type_synonym content = "string \<times> json"

datatype node = File content | Dir

datatype bucket = MeshB | MaterialB | TextureB | OtherB

datatype dest = InInstance nat string | InBucket bucket string

record fs =
  entries :: "(string \<times> node) list"
  instances :: "nat \<Rightarrow> (string \<times> content) list option"
  unassigned :: "bucket \<Rightarrow> (string \<times> content) list"
  copy_log :: "(string \<times> dest) list"

text \<open>The entry of directory \<open>d\<close> on the way to path \<open>p\<close>, when \<open>p\<close> lies below \<open>d\<close>.\<close>

definition child_of :: "string \<Rightarrow> string \<Rightarrow> string option" where
  "child_of d p =
     (let pre = (if d \<noteq> [] \<and> last d = CHR ''/'' then d else d @ ''/'');
          n = takeWhile (\<lambda>c. c \<noteq> CHR ''/'') (drop (length pre) p)
      in if prefix pre p \<and> n \<noteq> [] then Some n else None)"

text \<open>\<open>os.makedirs(p, exist_ok=True)\<close>, as far as the input directory sees it.\<close>

definition makedirs :: "string \<Rightarrow> string \<Rightarrow> fs \<Rightarrow> error + fs" where
  "makedirs input_dir p st =
     (case child_of input_dir p of
        None \<Rightarrow> Inr st
      | Some n \<Rightarrow>
          (case map_of (entries st) n of
             None \<Rightarrow> Inr (st\<lparr>entries := entries st @ [(n, Dir)]\<rparr>)
           | Some Dir \<Rightarrow> Inr st
           | Some (File c) \<Rightarrow>
               Inl (if p = py_join input_dir n then FileExistsError else NotADirectoryError)))"

fun makedirs_all :: "string \<Rightarrow> string list \<Rightarrow> fs \<Rightarrow> error + fs" where
  "makedirs_all input_dir [] st = Inr st"
| "makedirs_all input_dir (p # ps) st =
     (case makedirs input_dir p st of
        Inl e \<Rightarrow> Inl e
      | Inr st' \<Rightarrow> makedirs_all input_dir ps st')"

text \<open>Lines 29 to 46: the output directory, \<open>instances\<close>, \<open>unassigned\<close> and the four
  buckets, in the order the source creates them.\<close>

definition output_dirs :: "string \<Rightarrow> string list" where
  "output_dirs output_dir =
     (let instances_dir = py_join output_dir ''instances'';
          unassigned_dir = py_join output_dir ''unassigned''
      in [output_dir, instances_dir, unassigned_dir,
          py_join unassigned_dir ''mesh'', py_join unassigned_dir ''material'',
          py_join unassigned_dir ''texture'', py_join unassigned_dir ''other''])"

text \<open>Lines 48 to 51: every name of the input directory, joined to its path.\<close>

definition list_files :: "string \<Rightarrow> fs \<Rightarrow> string list" where
  "list_files input_dir st = map (\<lambda>(n, nd). py_join input_dir n) (entries st)"

definition read_node :: "string \<Rightarrow> fs \<Rightarrow> string \<Rightarrow> node option" where
  "read_node input_dir st p = map_of (map (\<lambda>(n, nd). (py_join input_dir n, nd)) (entries st)) p"

text \<open>Lines 54 to 68: every exception becomes \<open>None\<close>.\<close>

definition safe_read_json :: "string \<Rightarrow> fs \<Rightarrow> string \<Rightarrow> json" where
  "safe_read_json input_dir st file_path =
     (case read_node input_dir st file_path of
        Some (File (raw, j)) \<Rightarrow> j
      | _ \<Rightarrow> JNull)"

section \<open>The indexes\<close>

text \<open>Line 77: \<open>int(filename.split('entry_')[1].split('_')[0])\<close>.\<close>

definition entry_idx :: "string \<Rightarrow> error + int" where
  "entry_idx filename =
     (case py_split ''entry_'' filename of
        p0 # p1 # ps \<Rightarrow>
          (case py_split ''_'' p1 of
             [] \<Rightarrow> Inl IndexError
           | q0 # qs \<Rightarrow>
               (case py_int q0 of
                  None \<Rightarrow> Inl (ValueError ''invalid literal for int()'')
                | Some i \<Rightarrow> Inr i))
      | _ \<Rightarrow> Inl IndexError)"

text \<open>Lines 70 to 79: \<open>map_idx2filename\<close> and \<open>map_filename2idx\<close>.\<close>

fun build_idx_maps ::
  "string list \<Rightarrow> (int \<rightharpoonup> string) \<times> (string \<rightharpoonup> int) \<Rightarrow> error + (int \<rightharpoonup> string) \<times> (string \<rightharpoonup> int)" where
  "build_idx_maps [] m = Inr m"
| "build_idx_maps (filename # rest) (i2f, f2i) =
     (if \<not> contains ''entry'' filename then build_idx_maps rest (i2f, f2i)
      else (case entry_idx filename of
              Inl e \<Rightarrow> Inl e
            | Inr idx \<Rightarrow> build_idx_maps rest (i2f(idx \<mapsto> filename), f2i(filename \<mapsto> idx))))"

text \<open>Lines 85 to 90: the first listed path that ends with \<open>header.json\<close>.\<close>

definition find_header :: "string list \<Rightarrow> string option" where
  "find_header all_files = find (\<lambda>filename. endswith filename ''header.json'') all_files"

text \<open>Lines 102 to 109: \<open>map_hash2idx\<close> (\<open>map_idx2hash\<close> is only printed).\<close>

fun build_hash_map :: "json list \<Rightarrow> int \<Rightarrow> (hkey \<rightharpoonup> int) \<Rightarrow> error + (hkey \<rightharpoonup> int)" where
  "build_hash_map [] idx m = Inr m"
| "build_hash_map (asset # rest) idx m =
     (case subscript asset ''assetChecksum'' of
        Inl e \<Rightarrow> Inl e
      | Inr c \<Rightarrow>
          (case to_key c of
             Inl e \<Rightarrow> Inl e
           | Inr k \<Rightarrow> build_hash_map rest (idx + 1) (m(k \<mapsto> idx))))"

text \<open>Lines 99 to 109; \<open>len(header["assets"])\<close> is evaluated only when verbose.\<close>

definition load_hash_map :: "bool \<Rightarrow> json \<Rightarrow> error + (hkey \<rightharpoonup> int)" where
  "load_hash_map verbose header =
     (case subscript header ''assets'' of
        Inl e \<Rightarrow> Inl e
      | Inr assets \<Rightarrow>
          (case (if verbose then py_len assets else Inr 0) of
             Inl e \<Rightarrow> Inl e
           | Inr n \<Rightarrow>
               (case py_iter assets of
                  Inl e \<Rightarrow> Inl e
                | Inr as \<Rightarrow> build_hash_map as 0 Map.empty)))"

text \<open>\<open>d[k]\<close> and \<open>d.get(k)\<close> on \<open>map_hash2idx\<close>: an unhashable key raises in both.\<close>

definition dict_lookup :: "(hkey \<rightharpoonup> int) \<Rightarrow> json \<Rightarrow> error + int" where
  "dict_lookup d k =
     (case to_key k of
        Inl e \<Rightarrow> Inl e
      | Inr hk \<Rightarrow> (case d hk of None \<Rightarrow> Inl KeyError | Some i \<Rightarrow> Inr i))"

definition dict_get :: "(hkey \<rightharpoonup> int) \<Rightarrow> json \<Rightarrow> error + int option" where
  "dict_get d k = (case to_key k of Inl e \<Rightarrow> Inl e | Inr hk \<Rightarrow> Inr (d hk))"

section \<open>The instance resolver\<close>

text \<open>The tables built once per run and read by every instance.\<close>

record ctx =
  input_dir :: string
  all_files :: "string list"
  map_idx2filename :: "int \<rightharpoonup> string"
  map_filename2idx :: "string \<rightharpoonup> int"
  map_hash2idx :: "hkey \<rightharpoonup> int"
  gameobject_files :: "string list"

record instance_bundle =
  object_file :: string
  mesh_file :: string
  material_file :: string
  texture_files :: "string list"

text \<open>Line 167: \<open>"textures" in material\<close>, on whatever value the material file
  holds.\<close>

fun has_textures :: "json \<Rightarrow> error + bool" where
  "has_textures (JObj kvs) = Inr (''textures'' \<in> set (map fst kvs))"
| "has_textures (JArr xs) = Inr (JStr ''textures'' \<in> set xs)"
| "has_textures (JStr s) = Inr (contains ''textures'' s)"
| "has_textures v = Inl TypeError"

text \<open>Lines 165 to 172: the non-empty values of the texture-slot mapping.\<close>

definition material_textures :: "json \<Rightarrow> error + json list" where
  "material_textures material =
     (case has_textures material of
        Inl e \<Rightarrow> Inl e
      | Inr False \<Rightarrow> Inr []
      | Inr True \<Rightarrow>
          (case subscript material ''textures'' of
             Inl e \<Rightarrow> Inl e
           | Inr (JObj kvs) \<Rightarrow> Inr (filter truthy (map snd kvs))
           | Inr v \<Rightarrow> Inl AttributeError))"

definition looks_like_image :: "string \<Rightarrow> bool" where
  "looks_like_image file_path =
     (contains ''Texture'' file_path \<or> endswith file_path ''.png'' \<or> endswith file_path ''.jpg'')"

text \<open>Lines 187 to 191: the first file whose path contains the checksum and looks like
  an image. \<open>texture_hash in file_path\<close> raises when the checksum is not a string.\<close>

fun scan_by_name :: "json \<Rightarrow> string list \<Rightarrow> error + string list" where
  "scan_by_name texture_hash [] = Inr []"
| "scan_by_name texture_hash (file_path # rest) =
     (case texture_hash of
        JStr h \<Rightarrow>
          (if contains h file_path \<and> looks_like_image file_path then Inr [file_path]
           else scan_by_name texture_hash rest)
      | _ \<Rightarrow> Inl TypeError)"

text \<open>Lines 178 to 191: the body of the \<open>try\<close>. It yields the file names appended to
  \<open>texture_filenames\<close> (none or one), or the exception raised before any was.\<close>

definition texture_try :: "ctx \<Rightarrow> json \<Rightarrow> error + string list" where
  "texture_try cx texture_hash =
     (case dict_get (map_hash2idx cx) texture_hash of
        Inl e \<Rightarrow> Inl e
      | Inr (Some texture_idx) \<Rightarrow>
          (case map_idx2filename cx texture_idx of
             None \<Rightarrow> Inr []
           | Some texture_filename \<Rightarrow>
               if texture_filename \<noteq> [] then Inr [texture_filename] else Inr [])
      | Inr None \<Rightarrow> scan_by_name texture_hash (all_files cx))"

text \<open>Lines 194 to 205: the \<open>except\<close> branch.\<close>

fun scan_nearby :: "ctx \<Rightarrow> string \<Rightarrow> string list \<Rightarrow> string list" where
  "scan_nearby cx material_filename [] = []"
| "scan_nearby cx material_filename (file_path # rest) =
     (if endswith file_path ''.png'' \<or> endswith file_path ''.jpg'' then
        (let material_idx = (case map_filename2idx cx material_filename of None \<Rightarrow> 0 | Some i \<Rightarrow> i);
             file_idx = (case map_filename2idx cx file_path of None \<Rightarrow> 0 | Some i \<Rightarrow> i)
         in if \<bar>material_idx - file_idx\<bar> < 10 then [file_path]
            else scan_nearby cx material_filename rest)
      else scan_nearby cx material_filename rest)"

definition resolve_texture :: "ctx \<Rightarrow> string \<Rightarrow> json \<Rightarrow> string list" where
  "resolve_texture cx material_filename texture_hash =
     (case texture_try cx texture_hash of
        Inr found \<Rightarrow> found
      | Inl e \<Rightarrow> scan_nearby cx material_filename (all_files cx))"

text \<open>Lines 127 to 205 for one \<open>inst_id\<close>: \<open>None\<close> is the \<open>continue\<close> at line 131.\<close>

definition resolve_instance :: "ctx \<Rightarrow> fs \<Rightarrow> nat \<Rightarrow> error + instance_bundle option" where
  "resolve_instance cx st inst_id =
     (if length (gameobject_files cx) \<le> inst_id then Inl IndexError
      else
        let gameobject = safe_read_json (input_dir cx) st (gameobject_files cx ! inst_id) in
        if gameobject = JNull then Inr None
        else
          (case subscript gameobject ''1_UnityEngine.MeshFilter'' of
             Inl e \<Rightarrow> Inl e
           | Inr mesh_obj_hash \<Rightarrow>
          (case subscript gameobject ''2_UnityEngine.MeshRenderer'' of
             Inl e \<Rightarrow> Inl e
           | Inr renderers \<Rightarrow>
          (case subscript0 renderers of
             Inl e \<Rightarrow> Inl e
           | Inr material_obj_hash \<Rightarrow>
          (case dict_lookup (map_hash2idx cx) mesh_obj_hash of
             Inl e \<Rightarrow> Inl e
           | Inr mesh_idx \<Rightarrow>
          (case map_idx2filename cx mesh_idx of
             None \<Rightarrow> Inl KeyError
           | Some mesh_filename \<Rightarrow>
          (case dict_lookup (map_hash2idx cx) material_obj_hash of
             Inl e \<Rightarrow> Inl e
           | Inr material_idx \<Rightarrow>
          (case map_idx2filename cx material_idx of
             None \<Rightarrow> Inl KeyError
           | Some material_filename \<Rightarrow>
               let loaded = safe_read_json (input_dir cx) st material_filename;
                   material = (if loaded = JNull then JObj [(''textures'', JObj [])] else loaded)
               in
          (case material_textures material of
             Inl e \<Rightarrow> Inl e
           | Inr texture_hashes \<Rightarrow>
               Inr (Some \<lparr>object_file = gameobject_files cx ! inst_id,
                          mesh_file = mesh_filename,
                          material_file = material_filename,
                          texture_files =
                            concat (map (resolve_texture cx material_filename) texture_hashes)\<rparr>))))))))))"

section \<open>The layout materializer\<close>

text \<open>Line 209: \<open>os.makedirs(instance_dir, exist_ok=True)\<close>.\<close>

definition make_instance_dir :: "nat \<Rightarrow> fs \<Rightarrow> fs" where
  "make_instance_dir inst_id st =
     (case instances st inst_id of
        None \<Rightarrow> st\<lparr>instances := (instances st)(inst_id \<mapsto> [])\<rparr>
      | Some files \<Rightarrow> st)"

text \<open>The pattern of lines 212 to 250: \<open>shutil.copy\<close> only when the destination does
  not exist.\<close>

definition copy_guarded :: "string \<Rightarrow> nat \<Rightarrow> string \<Rightarrow> fs \<Rightarrow> error + fs" where
  "copy_guarded idir inst_id src st =
     (case instances st inst_id of
        None \<Rightarrow> Inl FileNotFoundError
      | Some files \<Rightarrow>
          if basename src \<in> set (map fst files) then Inr st
          else (case read_node idir st src of
                  None \<Rightarrow> Inl FileNotFoundError
                | Some Dir \<Rightarrow> Inl IsADirectoryError
                | Some (File c) \<Rightarrow>
                    Inr (st\<lparr>instances := (instances st)(inst_id \<mapsto> files @ [(basename src, c)]),
                            copy_log := copy_log st @ [(src, InInstance inst_id (basename src))]\<rparr>)))"

fun copy_all_guarded :: "string \<Rightarrow> nat \<Rightarrow> string list \<Rightarrow> fs \<Rightarrow> error + fs" where
  "copy_all_guarded idir inst_id [] st = Inr st"
| "copy_all_guarded idir inst_id (src # rest) st =
     (case copy_guarded idir inst_id src st of
        Inl e \<Rightarrow> Inl e
      | Inr st' \<Rightarrow> copy_all_guarded idir inst_id rest st')"

text \<open>Lines 207 to 250: the object, mesh and material files, then the textures.\<close>

definition materialize_instance :: "ctx \<Rightarrow> nat \<Rightarrow> instance_bundle \<Rightarrow> fs \<Rightarrow> error + fs" where
  "materialize_instance cx inst_id b st =
     copy_all_guarded (input_dir cx) inst_id
       (object_file b # mesh_file b # material_file b # texture_files b)
       (make_instance_dir inst_id st)"

definition process_instance :: "ctx \<Rightarrow> nat \<Rightarrow> fs \<Rightarrow> error + fs" where
  "process_instance cx inst_id st =
     (case resolve_instance cx st inst_id of
        Inl e \<Rightarrow> Inl e
      | Inr None \<Rightarrow> Inr st
      | Inr (Some b) \<Rightarrow> materialize_instance cx inst_id b st)"

text \<open>Line 123: the loop over \<open>range(len(gameobject_files))\<close>; an exception ends it.\<close>

fun instance_loop :: "ctx \<Rightarrow> nat list \<Rightarrow> fs \<Rightarrow> error + fs" where
  "instance_loop cx [] st = Inr st"
| "instance_loop cx (inst_id # rest) st =
     (case process_instance cx inst_id st of
        Inl e \<Rightarrow> Inl e
      | Inr st' \<Rightarrow> instance_loop cx rest st')"

text \<open>Lines 255 to 269: the paths presumed claimed, read back from the instance
  directories.\<close>

definition assigned_of_dir :: "string \<Rightarrow> fs \<Rightarrow> (string \<times> content) list \<Rightarrow> string list" where
  "assigned_of_dir idir st files =
     concat (map (\<lambda>(filename, c).
        py_join idir (basename filename) #
        (if read_node idir st (py_join idir filename) \<noteq> None then [py_join idir filename] else []))
       files)"

definition assigned_files :: "ctx \<Rightarrow> fs \<Rightarrow> string list" where
  "assigned_files cx st =
     concat (map (\<lambda>inst_id. case instances st inst_id of
                               None \<Rightarrow> []
                             | Some files \<Rightarrow> assigned_of_dir (input_dir cx) st files)
                 [0..<length (gameobject_files cx)])"

text \<open>Lines 278 to 290: the bucket of an unassigned file, by its name.\<close>

definition classify :: "string \<Rightarrow> bucket" where
  "classify filename =
     (if endswith filename ''.obj'' \<or> contains ''Mesh'' filename then MeshB
      else if endswith filename ''.json'' \<and> contains ''Material'' filename then MaterialB
      else if endswith filename ''.png'' \<or> endswith filename ''.jpg'' \<or> contains ''Texture'' filename
        then TextureB
      else OtherB)"

text \<open>\<open>d[k] = v\<close> on an association list: the entry is replaced where it stands, or
  added at the end.\<close>

fun put :: "string \<Rightarrow> content \<Rightarrow> (string \<times> content) list \<Rightarrow> (string \<times> content) list" where
  "put k v [] = [(k, v)]"
| "put k v ((k', v') # kvs) = (if k = k' then (k, v) # kvs else (k', v') # put k v kvs)"

text \<open>Line 294: \<open>shutil.copy2\<close>, whether or not the destination exists.\<close>

definition copy2 :: "string \<Rightarrow> string \<Rightarrow> fs \<Rightarrow> error + fs" where
  "copy2 idir src st =
     (case read_node idir st src of
        None \<Rightarrow> Inl FileNotFoundError
      | Some Dir \<Rightarrow> Inl IsADirectoryError
      | Some (File c) \<Rightarrow>
          Inr (st\<lparr>unassigned :=
                    (unassigned st)(classify (basename src) :=
                       put (basename src) c (unassigned st (classify (basename src)))),
                  copy_log := copy_log st @ [(src, InBucket (classify (basename src)) (basename src))]\<rparr>))"

text \<open>Lines 274 to 296.\<close>

fun sweep :: "string \<Rightarrow> string list \<Rightarrow> string list \<Rightarrow> fs \<Rightarrow> error + fs" where
  "sweep idir assigned [] st = Inr st"
| "sweep idir assigned (file_path # rest) st =
     (if file_path \<notin> set assigned then
        (case copy2 idir file_path st of
           Inl e \<Rightarrow> Inl e
         | Inr st' \<Rightarrow> sweep idir assigned rest st')
      else sweep idir assigned rest st)"

section \<open>\<open>organize_crp_assets\<close>\<close>

text \<open>Lines 26 and 27: the default output directory lies inside the input
  directory.\<close>

definition output_dir_of :: "string \<Rightarrow> string option \<Rightarrow> string" where
  "output_dir_of idir output_dir =
     (case output_dir of None \<Rightarrow> py_join idir ''organized'' | Some d \<Rightarrow> d)"

text \<open>Lines 24 to 120: the output directories, the listing, the indexes, the manifest
  and the scene-object files. The result is the tables of the run and the file system
  after the directories were made.\<close>

definition build_context :: "string \<Rightarrow> string option \<Rightarrow> bool \<Rightarrow> fs \<Rightarrow> error + ctx \<times> fs" where
  "build_context idir output_dir verbose st0 =
     (case makedirs_all idir (output_dirs (output_dir_of idir output_dir)) st0 of
        Inl e \<Rightarrow> Inl e
      | Inr st \<Rightarrow>
      (case build_idx_maps (list_files idir st) (Map.empty, Map.empty) of
        Inl e \<Rightarrow> Inl e
      | Inr (i2f, f2i) \<Rightarrow>
      (case find_header (list_files idir st) of
        None \<Rightarrow> Inl (ValueError ''header.json not found in the input directory'')
      | Some header_file \<Rightarrow>
          if safe_read_json idir st header_file = JNull
          then Inl (ValueError (''Could not read header file '' @ header_file))
          else
      (case load_hash_map verbose (safe_read_json idir st header_file) of
        Inl e \<Rightarrow> Inl e
      | Inr h2i \<Rightarrow>
          Inr (\<lparr>input_dir = idir,
                all_files = list_files idir st,
                map_idx2filename = i2f,
                map_filename2idx = f2i,
                map_hash2idx = h2i,
                gameobject_files =
                  filter (\<lambda>filename. endswith filename ''GameObject.json'') (list_files idir st)\<rparr>,
               st)))))"

text \<open>Lines 12 to 299: the context, the loop over the instances, the assigned set and
  the sweep. An exception of any phase leaves the function.\<close>

definition organize_crp_assets :: "string \<Rightarrow> string option \<Rightarrow> bool \<Rightarrow> fs \<Rightarrow> error + fs" where
  "organize_crp_assets idir output_dir verbose st0 =
     (case build_context idir output_dir verbose st0 of
        Inl e \<Rightarrow> Inl e
      | Inr (cx, st) \<Rightarrow>
          (case instance_loop cx [0..<length (gameobject_files cx)] st of
             Inl e \<Rightarrow> Inl e
           | Inr st2 \<Rightarrow> sweep idir (assigned_files cx st2) (all_files cx) st2))"

section \<open>The batch driver and the command line\<close>

text \<open>
  The batch driver works on the whole file system, of which the model above holds one
  directory. It is therefore modelled over the operations it calls, with the state
  \<open>'w\<close> of the file system passed from each call to the next: \<open>read_lines\<close> opens the
  list and iterates over its lines (the lines as Python yields them, or \<open>None\<close> when
  that raises), \<open>abspath\<close> is \<open>os.path.abspath\<close>, \<open>isdir\<close> is \<open>os.path.isdir\<close>, and
  \<open>organize\<close> is \<open>organize_crp_assets\<close> as an operation on the file system: the
  exception it raised, if any, and the file system it left behind.
\<close>

record 'w system =
  read_lines :: "string \<Rightarrow> 'w \<Rightarrow> string list option"
  abspath :: "string \<Rightarrow> 'w \<Rightarrow> string"
  isdir :: "string \<Rightarrow> 'w \<Rightarrow> bool"
  organize :: "string \<Rightarrow> string option \<Rightarrow> bool \<Rightarrow> 'w \<Rightarrow> error option \<times> 'w"

text \<open>Lines 324 to 344: one folder of the list; the pair counts successes and
  failures.\<close>

fun folder_loop :: "'w system \<Rightarrow> bool \<Rightarrow> string list \<Rightarrow> nat \<times> nat \<Rightarrow> 'w \<Rightarrow> nat \<times> nat" where
  "folder_loop sys verbose [] counts w = counts"
| "folder_loop sys verbose (folder # rest) (success_count, failure_count) w =
     (let folder_path = abspath sys folder w in
      if \<not> isdir sys folder_path w
      then folder_loop sys verbose rest (success_count, failure_count + 1) w
      else
        (case organize sys folder_path (Some (folder_path @ ''_organized'')) verbose w of
           (None, w') \<Rightarrow> folder_loop sys verbose rest (success_count + 1, failure_count) w'
         | (Some e, w') \<Rightarrow> folder_loop sys verbose rest (success_count, failure_count + 1) w'))"

text \<open>Lines 301 to 348.\<close>

definition process_crp_folders :: "'w system \<Rightarrow> string \<Rightarrow> bool \<Rightarrow> 'w \<Rightarrow> int" where
  "process_crp_folders sys input_file verbose w =
     (case read_lines sys input_file w of
        None \<Rightarrow> 1
      | Some lines \<Rightarrow>
          let crp_folders = filter (\<lambda>l. l \<noteq> []) (map py_strip lines) in
          if snd (folder_loop sys verbose crp_folders (0, 0) w) = 0 then 0 else 1)"

text \<open>The parsed command line: \<open>--input\<close> with the optional \<open>--output\<close>, or \<open>--file\<close>;
  the flag is \<open>--verbose\<close>.\<close>

datatype args = ArgInput string "string option" bool | ArgFile string bool

text \<open>Lines 350 to 367. Line 363 tests \<open>args.file\<close> for truth, so an empty \<open>--file\<close>
  takes the other branch, where \<open>args.input\<close> is \<open>None\<close> and \<open>os.path.abspath\<close> raises
  \<open>TypeError\<close>. \<open>main\<close> returns an int or raises what \<open>organize_crp_assets\<close> raises.\<close>

fun main :: "'w system \<Rightarrow> args \<Rightarrow> 'w \<Rightarrow> error + int" where
  "main sys (ArgFile file verbose) w =
     (if file \<noteq> [] then Inr (process_crp_folders sys file verbose w) else Inl TypeError)"
| "main sys (ArgInput inp out verbose) w =
     (case organize sys inp out verbose w of
        (Some e, w') \<Rightarrow> Inl e
      | (None, w') \<Rightarrow> Inr 0)"

text \<open>Lines 370 to 376, the \<open>__main__\<close> guard: \<open>main()\<close> is called for its effects, its
  value is dropped and an exception is printed; either way the interpreter then reaches
  the end of the script, and the process exits with status 0.\<close>

definition script_exit_code :: "'w system \<Rightarrow> args \<Rightarrow> 'w \<Rightarrow> int" where
  "script_exit_code sys a w = (case main sys a w of Inl e \<Rightarrow> 0 | Inr code \<Rightarrow> 0)"

text \<open>A file system in which \<open>/list.txt\<close> holds the one line \<open>/missing\<close>, the current
  directory is the root, and the root is the only directory.\<close>

definition missing_folder_system ::
  "(string \<Rightarrow> string option \<Rightarrow> bool \<Rightarrow> 'w \<Rightarrow> error option \<times> 'w) \<Rightarrow> 'w system" where
  "missing_folder_system org =
     \<lparr>read_lines = (\<lambda>p w. if p = ''/list.txt'' then Some [''/missing'' @ [CHR 0x0A]] else None),
      abspath = (\<lambda>p w. py_abspath ''/'' p),
      isdir = (\<lambda>p w. p = ''/''),
      organize = org\<rparr>"

section \<open>Example directories\<close>

text \<open>A directory with the given entries and an output tree that holds nothing yet.\<close>

definition empty_tree :: "(string \<times> node) list \<Rightarrow> fs" where
  "empty_tree es = \<lparr>entries = es, instances = (\<lambda>i. None), unassigned = (\<lambda>b. []), copy_log = []\<rparr>"

text \<open>Two files whose names end with \<open>header.json\<close>; and a directory without
  one.\<close>

definition two_manifests :: "(string \<times> node) list" where
  "two_manifests =
     [(''old_header.json'', File (''old'', JObj [(''assets'', JArr [])])),
      (''header.json'', File (''new'', JObj [(''assets'', JArr [JObj [(''assetChecksum'', JStr ''A1'')]])]))]"

definition no_manifest :: "(string \<times> node) list" where
  "no_manifest = [(''notes.txt'', File (''n'', JNull))]"

text \<open>A manifest of two assets and a material without textures.\<close>

definition manifest_a1_b2 :: node where
  "manifest_a1_b2 =
     File (''manifest'', JObj [(''assets'', JArr [JObj [(''assetChecksum'', JStr ''A1'')],
                                                JObj [(''assetChecksum'', JStr ''B2'')]])])"

definition material_no_texture :: node where
  "material_no_texture = File (''material'', JObj [(''textures'', JObj [(''diffuse'', JStr [])])])"

text \<open>The scene of the specification's end-to-end scenario, with an object record
  that lacks the renderer key; and with one whose mesh checksum the manifest does not
  list.\<close>

definition no_renderer :: "(string \<times> node) list" where
  "no_renderer =
     [(''header.json'', manifest_a1_b2),
      (''entry_0_x.obj'', File (''mesh'', JNull)),
      (''entry_1_x.json'', material_no_texture),
      (''entry_2_GameObject.json'',
         File (''object'', JObj [(''1_UnityEngine.MeshFilter'', JStr ''A1'')]))]"

definition unknown_mesh :: "(string \<times> node) list" where
  "unknown_mesh =
     [(''header.json'', manifest_a1_b2),
      (''entry_0_x.obj'', File (''mesh'', JNull)),
      (''entry_1_x.json'', material_no_texture),
      (''entry_2_GameObject.json'',
         File (''object'', JObj [(''1_UnityEngine.MeshFilter'', JStr ''ZZ''),
                               (''2_UnityEngine.MeshRenderer'', JArr [JStr ''B2''])]))]"

text \<open>The same scene with an object record that is not JSON listed before the record
  without the renderer key.\<close>

definition unreadable_object :: "(string \<times> node) list" where
  "unreadable_object =
     [(''header.json'', manifest_a1_b2),
      (''entry_0_x.obj'', File (''mesh'', JNull)),
      (''entry_1_x.json'', material_no_texture),
      (''entry_2_GameObject.json'', File (''not json'', JNull)),
      (''entry_3_GameObject.json'',
         File (''object'', JObj [(''1_UnityEngine.MeshFilter'', JStr ''A1'')]))]"



text \<open>The shape \<open>...entry_<digits>_...\<close> that claim C9 names, following its words:
  somewhere in the path the marker \<open>entry_\<close> is followed by at least one digit and then
  an underscore.\<close>

fun has_entry_form :: "string \<Rightarrow> bool" where
  "has_entry_form [] = False"
| "has_entry_form (c # cs) =
     ((prefix ''entry_'' (c # cs)
        \<and> takeWhile is_digit (drop 6 (c # cs)) \<noteq> []
        \<and> prefix ''_'' (dropWhile is_digit (drop 6 (c # cs))))
      \<or> has_entry_form cs)"

text \<open>A directory with a file named \<open>entry_7\<close>, and one with a file named
  \<open>entry7.obj\<close>.\<close>

definition entry_without_underscore :: "(string \<times> node) list" where
  "entry_without_underscore =
     [(''header.json'', File (''manifest'', JObj [(''assets'', JArr [])])),
      (''entry_7'', File (''data'', JNull))]"

definition entry_without_marker :: "(string \<times> node) list" where
  "entry_without_marker =
     [(''header.json'', File (''manifest'', JObj [(''assets'', JArr [])])),
      (''entry7.obj'', File (''data'', JNull))]"

text \<open>A directory with a file whose name has two markers, the first followed by a
  letter.\<close>

definition entry_with_text :: "(string \<times> node) list" where
  "entry_with_text =
     [(''header.json'', File (''manifest'', JObj [(''assets'', JArr [])])),
      (''entry_x_entry_5_y.obj'', File (''data'', JNull))]"



section \<open>What \<open>os.listdir\<close> guarantees\<close>

text \<open>A name of a directory entry is not empty and has no slash; \<open>valid_names\<close> says
  so of every entry of the input directory. \<open>dir_prefix d\<close> is what \<open>os.path.join\<close>
  puts in front of such a name.\<close>

definition valid_name :: "string \<Rightarrow> bool" where
  "valid_name n = (n \<noteq> [] \<and> CHR ''/'' \<notin> set n)"

definition valid_names :: "fs \<Rightarrow> bool" where
  "valid_names st = list_all (\<lambda>(n, nd). valid_name n) (entries st)"

definition dir_prefix :: "string \<Rightarrow> string" where
  "dir_prefix d = (if d = [] \<or> last d = CHR ''/'' then d else d @ ''/'')"

text \<open>No instance directory of the output tree holds a file named \<open>n\<close>, and the files
  it holds have names of directory entries.\<close>

definition unclaimed :: "string \<Rightarrow> fs \<Rightarrow> bool" where
  "unclaimed n st =
     (\<forall>i files. instances st i = Some files \<longrightarrow> (\<forall>f \<in> set (map fst files). valid_name f \<and> f \<noteq> n))"

text \<open>The end-to-end scenario of the specification.\<close>

definition scenario :: "(string \<times> node) list" where
  "scenario =
     [(''header.json'', manifest_a1_b2),
      (''entry_0_x.obj'', File (''mesh'', JNull)),
      (''entry_1_x.json'', material_no_texture),
      (''entry_2_GameObject.json'',
         File (''object'', JObj [(''1_UnityEngine.MeshFilter'', JStr ''A1''),
                               (''2_UnityEngine.MeshRenderer'', JArr [JStr ''B2''])]))]"

section \<open>Evaluation on concrete inputs\<close>

text \<open>The defining equations that \<open>simp\<close> unfolds to run the model on a concrete
  directory.\<close>

lemmas model_defs =
  organize_crp_assets_def build_context_def output_dir_of_def output_dirs_def py_join_def makedirs_def child_of_def
  list_files_def read_node_def safe_read_json_def entry_idx_def find_header_def
  load_hash_map_def dict_lookup_def dict_get_def material_textures_def
  looks_like_image_def texture_try_def resolve_texture_def resolve_instance_def
  make_instance_dir_def copy_guarded_def materialize_instance_def process_instance_def
  assigned_of_dir_def assigned_files_def classify_def copy2_def endswith_def
  basename_def py_int_def py_strip_def is_space_def int_space_def is_digit_def digits_val_def
  py_split.simps suffix_to_prefix Let_def

lemmas example_defs = empty_tree_def manifest_a1_b2_def material_no_texture_def

section \<open>What a run leaves unchanged, and where it stops\<close>

text \<open>Only \<open>os.makedirs\<close> changes the entries of the input directory; reading a file,
  and with it the resolution of an instance, depends on the entries alone.\<close>

lemma read_node_entries: "entries st' = entries st \<Longrightarrow> read_node d st' = read_node d st"
  by (rule ext) (simp add: read_node_def)

lemma safe_read_json_entries:
  assumes "entries st' = entries st"
  shows "safe_read_json d st' p = safe_read_json d st p"
  unfolding safe_read_json_def read_node_entries [OF assms] ..

lemma resolve_instance_entries:
  assumes "entries st' = entries st"
  shows "resolve_instance cx st' i = resolve_instance cx st i"
  unfolding resolve_instance_def safe_read_json_entries [OF assms] ..

lemma make_instance_dir_entries [simp]: "entries (make_instance_dir i st) = entries st"
  by (simp add: make_instance_dir_def split: option.splits)

lemma copy_guarded_entries: "copy_guarded d i src st = Inr st' \<Longrightarrow> entries st' = entries st"
  by (auto simp: copy_guarded_def split: option.splits if_splits node.splits)

lemma copy_all_guarded_entries:
  "copy_all_guarded d i srcs st = Inr st' \<Longrightarrow> entries st' = entries st"
proof (induction srcs arbitrary: st)
  case Nil
  then show ?case by simp
next
  case (Cons src srcs)
  then obtain st1 where s1: "copy_guarded d i src st = Inr st1"
    and s2: "copy_all_guarded d i srcs st1 = Inr st'"
    by (auto split: sum.splits)
  from Cons.IH [OF s2] copy_guarded_entries [OF s1] show ?case by simp
qed

lemma process_instance_entries:
  assumes that: "process_instance cx i st = Inr st'"
  shows "entries st' = entries st"
proof (cases "resolve_instance cx st i")
  case (Inl e)
  with that show ?thesis by (simp add: process_instance_def)
next
  case (Inr r)
  show ?thesis
  proof (cases r)
    case None
    with Inr that show ?thesis by (simp add: process_instance_def)
  next
    case (Some b)
    with Inr have "copy_all_guarded (input_dir cx) i
        (object_file b # mesh_file b # material_file b # texture_files b)
        (make_instance_dir i st) = Inr st'"
      using that by (simp add: process_instance_def materialize_instance_def)
    from copy_all_guarded_entries [OF this] show ?thesis by simp
  qed
qed

lemma instance_loop_entries:
  "instance_loop cx ids st = Inr st' \<Longrightarrow> entries st' = entries st"
proof (induction ids arbitrary: st)
  case Nil
  then show ?case by simp
next
  case (Cons i ids)
  then obtain st1 where s1: "process_instance cx i st = Inr st1"
    and s2: "instance_loop cx ids st1 = Inr st'"
    by (auto split: sum.splits)
  from Cons.IH [OF s2] process_instance_entries [OF s1] show ?case by simp
qed

lemma instance_loop_abort:
  assumes "i \<in> set ids"
    and "\<And>st'. entries st' = entries st \<Longrightarrow> \<exists>e. process_instance cx i st' = Inl e"
  shows "\<exists>e. instance_loop cx ids st = Inl e"
  using assms
proof (induction ids arbitrary: st)
  case Nil
  then show ?case by simp
next
  case (Cons j ids)
  show ?case
  proof (cases "process_instance cx j st")
    case (Inl e)
    then show ?thesis by simp
  next
    case (Inr st1)
    then have e1: "entries st1 = entries st" by (rule process_instance_entries)
    have "j \<noteq> i" using Cons.prems(2) [of st] Inr by auto
    with Cons.prems(1) have "i \<in> set ids" by simp
    moreover have "\<And>st'. entries st' = entries st1 \<Longrightarrow> \<exists>e. process_instance cx i st' = Inl e"
      using Cons.prems(2) e1 by simp
    ultimately have "\<exists>e. instance_loop cx ids st1 = Inl e" by (rule Cons.IH)
    with Inr show ?thesis by simp
  qed
qed

lemma build_context_Inr:
  assumes "build_context idir out v st0 = Inr (cx, st)"
  obtains i2f f2i h h2i where
    "makedirs_all idir (output_dirs (output_dir_of idir out)) st0 = Inr st"
    "build_idx_maps (list_files idir st) (Map.empty, Map.empty) = Inr (i2f, f2i)"
    "find_header (list_files idir st) = Some h"
    "safe_read_json idir st h \<noteq> JNull"
    "load_hash_map v (safe_read_json idir st h) = Inr h2i"
    "cx = \<lparr>input_dir = idir, all_files = list_files idir st, map_idx2filename = i2f,
           map_filename2idx = f2i, map_hash2idx = h2i,
           gameobject_files = filter (\<lambda>f. endswith f ''GameObject.json'') (list_files idir st)\<rparr>"
proof -
  let ?m = "makedirs_all idir (output_dirs (output_dir_of idir out)) st0"
  obtain st1 where m: "?m = Inr st1"
    using assms by (cases ?m) (simp_all add: build_context_def)
  let ?b = "build_idx_maps (list_files idir st1) (Map.empty, Map.empty)"
  obtain i2f f2i where b: "?b = Inr (i2f, f2i)"
    using assms m by (cases ?b) (auto simp add: build_context_def)
  let ?f = "find_header (list_files idir st1)"
  obtain h where f: "?f = Some h"
    using assms m b by (cases ?f) (simp_all add: build_context_def)
  have r: "safe_read_json idir st1 h \<noteq> JNull"
    using assms m b f by (auto simp add: build_context_def)
  let ?l = "load_hash_map v (safe_read_json idir st1 h)"
  obtain h2i where l: "?l = Inr h2i"
    using assms m b f r by (cases ?l) (simp_all add: build_context_def)
  have "st1 = st" and "cx = \<lparr>input_dir = idir, all_files = list_files idir st1, map_idx2filename = i2f,
           map_filename2idx = f2i, map_hash2idx = h2i,
           gameobject_files = filter (\<lambda>f. endswith f ''GameObject.json'') (list_files idir st1)\<rparr>"
    using assms m b f r l by (auto simp add: build_context_def)
  with m b f r l show thesis by (intro that) simp_all
qed

lemma build_context_ctx:
  assumes "build_context idir out v st0 = Inr (cx, st)"
  shows "input_dir cx = idir" and "all_files cx = list_files idir st"
    and "gameobject_files cx = filter (\<lambda>f. endswith f ''GameObject.json'') (list_files idir st)"
    and "makedirs_all idir (output_dirs (output_dir_of idir out)) st0 = Inr st"
proof -
  from assms obtain i2f f2i h h2i where
    m: "makedirs_all idir (output_dirs (output_dir_of idir out)) st0 = Inr st" and
    c: "cx = \<lparr>input_dir = idir, all_files = list_files idir st, map_idx2filename = i2f,
           map_filename2idx = f2i, map_hash2idx = h2i,
           gameobject_files = filter (\<lambda>f. endswith f ''GameObject.json'') (list_files idir st)\<rparr>"
    by (rule build_context_Inr)
  from c show "input_dir cx = idir" by simp
  from c show "all_files cx = list_files idir st" by simp
  from c show "gameobject_files cx = filter (\<lambda>f. endswith f ''GameObject.json'') (list_files idir st)"
    by simp
  from m show "makedirs_all idir (output_dirs (output_dir_of idir out)) st0 = Inr st" .
qed

lemma organize_abort_at_instance:
  assumes "build_context idir out v st0 = Inr (cx, st)"
    and "i < length (gameobject_files cx)"
    and "\<And>st'. entries st' = entries st \<Longrightarrow> \<exists>e. process_instance cx i st' = Inl e"
  shows "\<exists>e. organize_crp_assets idir out v st0 = Inl e"
proof -
  from assms(2) have "i \<in> set [0..<length (gameobject_files cx)]" by simp
  from instance_loop_abort [OF this assms(3)]
  obtain e where "instance_loop cx [0..<length (gameobject_files cx)] st = Inl e" by blast
  with assms(1) show ?thesis by (simp add: organize_crp_assets_def)
qed

lemma upt_split: "i < n \<Longrightarrow> [0..<n] = [0..<i] @ i # [Suc i..<n]"
proof -
  assume "i < n"
  then obtain k where k: "n = i + k" and "0 < k"
    using less_imp_add_positive by blast
  have "[0..<i + k] = [0..<i] @ [i..<i + k]" by (rule upt_add_eq_append) simp
  moreover have "[i..<i + k] = i # [Suc i..<i + k]" using \<open>0 < k\<close> by (simp add: upt_conv_Cons)
  ultimately show ?thesis using k by simp
qed

lemma instance_loop_append:
  "instance_loop cx (xs @ ys) st =
     (case instance_loop cx xs st of Inl e \<Rightarrow> Inl e | Inr st' \<Rightarrow> instance_loop cx ys st')"
  by (induction xs arbitrary: st) (simp_all split: sum.splits)

lemma instance_loop_at:
  assumes l: "instance_loop cx xs st = Inr st1"
    and p: "process_instance cx i st1 = Inl e"
  shows "instance_loop cx (xs @ i # ys) st = Inl e"
proof -
  have "instance_loop cx (i # ys) st1 = Inl e" using p by simp
  then show ?thesis by (simp only: instance_loop_append l sum.case)
qed

lemma organize_abort_after:
  assumes bc: "build_context idir out v st0 = Inr (cx, st)"
    and i: "i < length (gameobject_files cx)"
    and l: "instance_loop cx [0..<i] st = Inr st1"
    and p: "process_instance cx i st1 = Inl e"
  shows "organize_crp_assets idir out v st0 = Inl e"
proof -
  have "instance_loop cx ([0..<i] @ i # [Suc i..<length (gameobject_files cx)]) st = Inl e"
    using l p by (rule instance_loop_at)
  then have "instance_loop cx [0..<length (gameobject_files cx)] st = Inl e"
    by (simp only: upt_split [OF i, symmetric])
  with bc show ?thesis by (simp add: organize_crp_assets_def)
qed

lemma resolve_instance_skip:
  assumes "j < length (gameobject_files cx)"
  shows "resolve_instance cx st j = Inr None
           \<longleftrightarrow> safe_read_json (input_dir cx) st (gameobject_files cx ! j) = JNull"
proof (cases "safe_read_json (input_dir cx) st (gameobject_files cx ! j) = JNull")
  case True
  with assms show ?thesis by (simp add: resolve_instance_def)
next
  case False
  with assms have "resolve_instance cx st j \<noteq> Inr None"
    by (simp add: resolve_instance_def Let_def split: sum.split option.split)
  with False show ?thesis by simp
qed

lemma find_header_first:
  "find_header fs = Some h \<longleftrightarrow>
     (\<exists>pre post. fs = pre @ h # post \<and> endswith h ''header.json''
        \<and> (\<forall>f \<in> set pre. \<not> endswith f ''header.json''))"
  unfolding find_header_def find_Some_iff
proof
  assume "\<exists>i<length fs. endswith (fs ! i) ''header.json'' \<and> h = fs ! i \<and> (\<forall>j<i. \<not> endswith (fs ! j) ''header.json'')"
  then obtain i where i: "i < length fs" "endswith (fs ! i) ''header.json''" "h = fs ! i"
    "\<forall>j<i. \<not> endswith (fs ! j) ''header.json''" by blast
  have "fs = take i fs @ h # drop (Suc i) fs" using i(1,3) by (simp add: id_take_nth_drop)
  moreover have "\<forall>f \<in> set (take i fs). \<not> endswith f ''header.json''"
    using i(1,4) by (auto simp: in_set_conv_nth)
  ultimately show "\<exists>pre post. fs = pre @ h # post \<and> endswith h ''header.json''
        \<and> (\<forall>f \<in> set pre. \<not> endswith f ''header.json'')" using i(2,3) by blast
next
  assume "\<exists>pre post. fs = pre @ h # post \<and> endswith h ''header.json''
        \<and> (\<forall>f \<in> set pre. \<not> endswith f ''header.json'')"
  then obtain pre post where p: "fs = pre @ h # post" "endswith h ''header.json''"
    "\<forall>f \<in> set pre. \<not> endswith f ''header.json''" by blast
  have "length pre < length fs" using p(1) by simp
  moreover have "fs ! length pre = h" using p(1) by simp
  moreover have "\<forall>j<length pre. \<not> endswith (fs ! j) ''header.json''"
    using p(1,3) by (simp add: nth_append)
  ultimately show "\<exists>i<length fs. endswith (fs ! i) ''header.json'' \<and> h = fs ! i \<and> (\<forall>j<i. \<not> endswith (fs ! j) ''header.json'')"
    using p(2) by blast
qed

section \<open>The exit status of the organizer\<close>

lemma script_exit_code_zero: "script_exit_code sys a w = 0"
  by (simp add: script_exit_code_def split: sum.splits)

text \<open>
  Claim C1. The organizer is to exit with status 0 exactly when every requested unit
  succeeded and with status 1 otherwise. Here the batch list names one folder that is
  not a directory: \<open>process_crp_folders\<close> counts the failure and returns 1, as its
  docstring promises, \<open>main\<close> returns that value, and the \<open>__main__\<close> guard drops it, so
  the process exits with status 0.
\<close>

theorem exit_status_of_failed_batch:
  "process_crp_folders (missing_folder_system org) ''/list.txt'' False w = 1
   \<and> main (missing_folder_system org) (ArgFile ''/list.txt'' False) w = Inr 1
   \<and> script_exit_code (missing_folder_system org) (ArgFile ''/list.txt'' False) w = 0"
  by (simp add: process_crp_folders_def script_exit_code_def missing_folder_system_def
      py_strip_def is_space_def py_abspath_def normpath_def py_split.simps Let_def)

section \<open>The manifest\<close>

text \<open>
  Claim C5, as stated, has the manifest found by an exact file name and its loading fail
  when more than one candidate exists. It fails on the directory \<open>two_manifests\<close>:
  \<open>old_header.json\<close> is listed first, its path ends with \<open>header.json\<close>, so it is
  taken as the manifest, and the run completes.
\<close>

theorem second_manifest_candidate_ignored:
  "find_header (list_files ''/in'' (empty_tree two_manifests)) = Some ''/in/old_header.json''
   \<and> map_sum id copy_log
        (organize_crp_assets ''/in'' (Some ''/out'') False (empty_tree two_manifests))
      = Inr [(''/in/old_header.json'', InBucket OtherB ''old_header.json''),
             (''/in/header.json'', InBucket OtherB ''header.json'')]"
  by (simp add: empty_tree_def two_manifests_def model_defs)

text \<open>
  Claim C5, amended: the manifest is the first listed path that ends with
  \<open>header.json\<close> (a suffix test on the joined path, so further candidates are
  ignored); when the output directories were made and the entry index was built,
  the run raises \<open>ValueError\<close> if no listed path ends with \<open>header.json\<close>, and
  raises \<open>ValueError\<close> if the file found cannot be read as JSON.
\<close>

theorem manifest_lookup:
  assumes "makedirs_all idir (output_dirs (output_dir_of idir out)) st0 = Inr st"
    and "build_idx_maps (list_files idir st) (Map.empty, Map.empty) = Inr m"
  shows "(find_header (list_files idir st) = Some h \<longleftrightarrow>
           (\<exists>pre post. list_files idir st = pre @ h # post \<and> endswith h ''header.json''
              \<and> (\<forall>f \<in> set pre. \<not> endswith f ''header.json'')))
       \<and> ((\<forall>f \<in> set (list_files idir st). \<not> endswith f ''header.json'') \<longrightarrow>
            organize_crp_assets idir out v st0
              = Inl (ValueError ''header.json not found in the input directory''))
       \<and> (find_header (list_files idir st) = Some h \<and> safe_read_json idir st h = JNull \<longrightarrow>
            organize_crp_assets idir out v st0
              = Inl (ValueError (''Could not read header file '' @ h)))"
proof (intro conjI impI)
  show "find_header (list_files idir st) = Some h \<longleftrightarrow>
           (\<exists>pre post. list_files idir st = pre @ h # post \<and> endswith h ''header.json''
              \<and> (\<forall>f \<in> set pre. \<not> endswith f ''header.json''))"
    by (rule find_header_first)
next
  assume "\<forall>f \<in> set (list_files idir st). \<not> endswith f ''header.json''"
  then have "find_header (list_files idir st) = None"
    by (simp add: find_header_def find_None_iff)
  with assms show "organize_crp_assets idir out v st0
      = Inl (ValueError ''header.json not found in the input directory'')"
    by (cases m) (simp add: organize_crp_assets_def build_context_def)
next
  assume "find_header (list_files idir st) = Some h \<and> safe_read_json idir st h = JNull"
  with assms show "organize_crp_assets idir out v st0
      = Inl (ValueError (''Could not read header file '' @ h))"
    by (cases m) (simp add: organize_crp_assets_def build_context_def)
qed

theorem manifest_lookup_witness:
  "organize_crp_assets ''/in'' (Some ''/out'') False (empty_tree no_manifest)
     = Inl (ValueError ''header.json not found in the input directory'')"
proof -
  have m: "makedirs_all ''/in'' (output_dirs (output_dir_of ''/in'' (Some ''/out''))) (empty_tree no_manifest)
      = Inr (empty_tree no_manifest)"
    by (simp add: empty_tree_def no_manifest_def model_defs)
  have b: "build_idx_maps (list_files ''/in'' (empty_tree no_manifest)) (Map.empty, Map.empty)
      = Inr (Map.empty, Map.empty)"
    by (simp add: empty_tree_def no_manifest_def model_defs)
  have n: "\<forall>f \<in> set (list_files ''/in'' (empty_tree no_manifest)). \<not> endswith f ''header.json''"
    by (simp add: empty_tree_def no_manifest_def model_defs)
  from manifest_lookup [OF m b, of "[]" False] n show ?thesis by blast
qed

section \<open>Instances that cannot be resolved\<close>

text \<open>
  Claim C3, as stated, has an object record without the \<open>MeshFilter\<close> or
  \<open>MeshRenderer\<close> key skipped while the run goes on and can report success. It
  fails on the directory \<open>no_renderer\<close>: line 141 raises \<open>KeyError\<close>, nothing in
  \<open>organize_crp_assets\<close> catches it, and the run of the directory ends with that
  exception.
\<close>

theorem missing_renderer_key_fails_the_run:
  "organize_crp_assets ''/in'' (Some ''/out'') False (empty_tree no_renderer) = Inl KeyError"
  by (simp add: no_renderer_def example_defs model_defs)

text \<open>
  Claim C3, amended: when the object record of instance \<open>i\<close> is a JSON object that
  lacks the \<open>1_UnityEngine.MeshFilter\<close> key or the \<open>2_UnityEngine.MeshRenderer\<close> key,
  the loop body raises \<open>KeyError\<close> for that instance in whatever state the loop
  reaches it, and the run of the directory ends with an exception: with \<open>KeyError\<close>
  when the instances before \<open>i\<close> went through, so that no later instance is
  processed and nothing is swept. The instances the loop skips are exactly those whose
  object record cannot be read as JSON: for them, and for no other, the resolver
  yields no bundle and the loop body leaves the state as it is.
\<close>

theorem missing_component_key_aborts:
  assumes "build_context idir out v st0 = Inr (cx, st)"
    and "i < length (gameobject_files cx)"
    and "safe_read_json idir st (gameobject_files cx ! i) = JObj kvs"
    and "map_of kvs ''1_UnityEngine.MeshFilter'' = None
         \<or> map_of kvs ''2_UnityEngine.MeshRenderer'' = None"
  shows "(\<forall>st'. entries st' = entries st \<longrightarrow> process_instance cx i st' = Inl KeyError)
       \<and> (\<exists>e. organize_crp_assets idir out v st0 = Inl e)
       \<and> (\<forall>st1. instance_loop cx [0..<i] st = Inr st1 \<longrightarrow>
             organize_crp_assets idir out v st0 = Inl KeyError)
       \<and> (\<forall>j st'. j < length (gameobject_files cx) \<longrightarrow>
             (resolve_instance cx st' j = Inr None
                \<longleftrightarrow> safe_read_json idir st' (gameobject_files cx ! j) = JNull)
             \<and> (safe_read_json idir st' (gameobject_files cx ! j) = JNull
                \<longrightarrow> process_instance cx j st' = Inr st'))"
proof -
  have idir: "input_dir cx = idir" using assms(1) by (rule build_context_ctx)
  have step: "process_instance cx i st' = Inl KeyError" if "entries st' = entries st" for st'
  proof -
    have "safe_read_json (input_dir cx) st' (gameobject_files cx ! i) = JObj kvs"
      using assms(3) idir safe_read_json_entries [OF that] by simp
    with assms(2,4) have "resolve_instance cx st' i = Inl KeyError"
      by (auto simp: resolve_instance_def split: option.splits)
    then show ?thesis by (simp add: process_instance_def)
  qed
  then have "\<And>st'. entries st' = entries st \<Longrightarrow> \<exists>e. process_instance cx i st' = Inl e"
    by blast
  from organize_abort_at_instance [OF assms(1,2) this]
  have 2: "\<exists>e. organize_crp_assets idir out v st0 = Inl e" .
  have 3: "organize_crp_assets idir out v st0 = Inl KeyError"
    if l: "instance_loop cx [0..<i] st = Inr st1" for st1
  proof -
    from l have "entries st1 = entries st" by (rule instance_loop_entries)
    then have "process_instance cx i st1 = Inl KeyError" by (rule step)
    with assms(1,2) l show ?thesis by (rule organize_abort_after)
  qed
  have 4: "(resolve_instance cx st' j = Inr None
                \<longleftrightarrow> safe_read_json idir st' (gameobject_files cx ! j) = JNull)
             \<and> (safe_read_json idir st' (gameobject_files cx ! j) = JNull
                \<longrightarrow> process_instance cx j st' = Inr st')"
    if j: "j < length (gameobject_files cx)" for j st'
  proof -
    from resolve_instance_skip [OF j, of st'] idir
    have s: "resolve_instance cx st' j = Inr None
                \<longleftrightarrow> safe_read_json idir st' (gameobject_files cx ! j) = JNull" by simp
    have "process_instance cx j st' = Inr st'"
      if "safe_read_json idir st' (gameobject_files cx ! j) = JNull"
    proof -
      from s that have "resolve_instance cx st' j = Inr None" by blast
      then show ?thesis by (simp add: process_instance_def)
    qed
    with s show ?thesis by blast
  qed
  from step 2 3 4 show ?thesis by blast
qed

theorem missing_component_key_aborts_witness:
  "(\<exists>cx st. build_context ''/in'' (Some ''/out'') False (empty_tree unreadable_object) = Inr (cx, st)
        \<and> gameobject_files cx = [''/in/entry_2_GameObject.json'', ''/in/entry_3_GameObject.json'']
        \<and> safe_read_json ''/in'' st (gameobject_files cx ! 0) = JNull
        \<and> process_instance cx 0 st = Inr st
        \<and> safe_read_json ''/in'' st (gameobject_files cx ! 1)
            = JObj [(''1_UnityEngine.MeshFilter'', JStr ''A1'')]
        \<and> process_instance cx 1 st = Inl KeyError)
   \<and> organize_crp_assets ''/in'' (Some ''/out'') False (empty_tree unreadable_object) = Inl KeyError"
proof -
  obtain cx st where
    bc: "build_context ''/in'' (Some ''/out'') False (empty_tree unreadable_object) = Inr (cx, st)"
    by (simp add: unreadable_object_def example_defs model_defs)
  have "makedirs_all ''/in'' (output_dirs (output_dir_of ''/in'' (Some ''/out'')))
          (empty_tree unreadable_object) = Inr (empty_tree unreadable_object)"
    by (simp add: unreadable_object_def example_defs model_defs)
  with build_context_ctx(4) [OF bc] have st: "st = empty_tree unreadable_object" by simp
  have g: "gameobject_files cx = [''/in/entry_2_GameObject.json'', ''/in/entry_3_GameObject.json'']"
    unfolding build_context_ctx(3) [OF bc] st
    by (simp add: unreadable_object_def example_defs model_defs)
  have i: "1 < length (gameobject_files cx)" and j: "0 < length (gameobject_files cx)"
    using g by simp_all
  have r0: "safe_read_json ''/in'' st (gameobject_files cx ! 0) = JNull"
    unfolding g st by (simp add: unreadable_object_def example_defs model_defs)
  have r: "safe_read_json ''/in'' st (gameobject_files cx ! 1)
            = JObj [(''1_UnityEngine.MeshFilter'', JStr ''A1'')]"
    unfolding g st by (simp add: unreadable_object_def example_defs model_defs)
  have k: "map_of [(''1_UnityEngine.MeshFilter'', JStr ''A1'')] ''1_UnityEngine.MeshFilter'' = None
         \<or> map_of [(''1_UnityEngine.MeshFilter'', JStr ''A1'')] ''2_UnityEngine.MeshRenderer'' = None"
    by simp
  note t = missing_component_key_aborts [OF bc i r k]
  from t j r0 have p0: "process_instance cx 0 st = Inr st" by blast
  from t have p1: "process_instance cx 1 st = Inl KeyError" by blast
  from p0 have "instance_loop cx [0..<1] st = Inr st" by simp
  with t have "organize_crp_assets ''/in'' (Some ''/out'') False (empty_tree unreadable_object) = Inl KeyError"
    by blast
  with bc g r0 p0 r p1 show ?thesis by blast
qed

text \<open>
  Claim C2, as stated, has an instance whose mesh or material checksum is not in the
  index skipped without an exception. It fails on the directory \<open>unknown_mesh\<close>:
  \<open>map_hash2idx[mesh_obj_hash]\<close> at line 146 raises \<open>KeyError\<close>, and the run of the
  directory ends with that exception.
\<close>

theorem unknown_checksum_fails_the_run:
  "organize_crp_assets ''/in'' (Some ''/out'') False (empty_tree unknown_mesh) = Inl KeyError"
  by (simp add: unknown_mesh_def example_defs model_defs)

text \<open>
  Claim C2, amended: when the object record of instance \<open>i\<close> names a mesh checksum
  and a material checksum, both hashable, and one of them is absent from
  \<open>map_hash2idx\<close> or has an ordinal without a discovered file, the loop body raises
  \<open>KeyError\<close> for that instance in whatever state the loop reaches it, and the run of
  the directory ends with an exception: with \<open>KeyError\<close> when the instances before
  \<open>i\<close> went through.
\<close>

theorem unresolved_checksum_aborts:
  assumes "build_context idir out v st0 = Inr (cx, st)"
    and "i < length (gameobject_files cx)"
    and "subscript (safe_read_json idir st (gameobject_files cx ! i)) ''1_UnityEngine.MeshFilter''
           = Inr mesh_obj_hash"
    and "subscript (safe_read_json idir st (gameobject_files cx ! i)) ''2_UnityEngine.MeshRenderer''
           = Inr renderers"
    and "subscript0 renderers = Inr material_obj_hash"
    and "to_key mesh_obj_hash = Inr km" and "to_key material_obj_hash = Inr kt"
    and "(case map_hash2idx cx km of None \<Rightarrow> True | Some idx \<Rightarrow> map_idx2filename cx idx = None)
         \<or> (case map_hash2idx cx kt of None \<Rightarrow> True | Some idx \<Rightarrow> map_idx2filename cx idx = None)"
  shows "(\<forall>st'. entries st' = entries st \<longrightarrow> process_instance cx i st' = Inl KeyError)
       \<and> (\<exists>e. organize_crp_assets idir out v st0 = Inl e)
       \<and> (\<forall>st1. instance_loop cx [0..<i] st = Inr st1 \<longrightarrow>
             organize_crp_assets idir out v st0 = Inl KeyError)"
proof -
  have idir: "input_dir cx = idir" using assms(1) by (rule build_context_ctx)
  let ?g = "safe_read_json idir st (gameobject_files cx ! i)"
  have nn: "?g \<noteq> JNull" using assms(3) by auto
  have step: "process_instance cx i st' = Inl KeyError" if "entries st' = entries st" for st'
  proof -
    have g: "safe_read_json (input_dir cx) st' (gameobject_files cx ! i) = ?g"
      using idir safe_read_json_entries [OF that] by simp
    have "resolve_instance cx st' i = Inl KeyError"
      unfolding resolve_instance_def g
      using assms(2-8) nn
      by (auto simp: dict_lookup_def Let_def split: option.splits sum.splits)
    then show ?thesis by (simp add: process_instance_def)
  qed
  then have "\<And>st'. entries st' = entries st \<Longrightarrow> \<exists>e. process_instance cx i st' = Inl e"
    by blast
  from organize_abort_at_instance [OF assms(1,2) this]
  have 2: "\<exists>e. organize_crp_assets idir out v st0 = Inl e" .
  have 3: "organize_crp_assets idir out v st0 = Inl KeyError"
    if l: "instance_loop cx [0..<i] st = Inr st1" for st1
  proof -
    from l have "entries st1 = entries st" by (rule instance_loop_entries)
    then have "process_instance cx i st1 = Inl KeyError" by (rule step)
    with assms(1,2) l show ?thesis by (rule organize_abort_after)
  qed
  from step 2 3 show ?thesis by blast
qed

theorem unresolved_checksum_aborts_witness:
  "(\<exists>cx st. build_context ''/in'' (Some ''/out'') False (empty_tree unknown_mesh) = Inr (cx, st)
        \<and> gameobject_files cx = [''/in/entry_2_GameObject.json'']
        \<and> subscript (safe_read_json ''/in'' st (gameobject_files cx ! 0)) ''1_UnityEngine.MeshFilter''
            = Inr (JStr ''ZZ'')
        \<and> map_hash2idx cx (KStr ''ZZ'') = None
        \<and> process_instance cx 0 st = Inl KeyError)
   \<and> organize_crp_assets ''/in'' (Some ''/out'') False (empty_tree unknown_mesh) = Inl KeyError"
proof -
  obtain cx st where
    bc: "build_context ''/in'' (Some ''/out'') False (empty_tree unknown_mesh) = Inr (cx, st)"
    by (simp add: unknown_mesh_def example_defs model_defs)
  have "makedirs_all ''/in'' (output_dirs (output_dir_of ''/in'' (Some ''/out'')))
          (empty_tree unknown_mesh) = Inr (empty_tree unknown_mesh)"
    by (simp add: unknown_mesh_def example_defs model_defs)
  with build_context_ctx(4) [OF bc] have st: "st = empty_tree unknown_mesh" by simp
  have g: "gameobject_files cx = [''/in/entry_2_GameObject.json'']"
    unfolding build_context_ctx(3) [OF bc] st
    by (simp add: unknown_mesh_def example_defs model_defs)
  have i: "0 < length (gameobject_files cx)" using g by simp
  have h: "map_hash2idx cx (KStr ''ZZ'') = None"
    using bc by (auto simp add: unknown_mesh_def example_defs model_defs)
  have r1: "subscript (safe_read_json ''/in'' st (gameobject_files cx ! 0)) ''1_UnityEngine.MeshFilter''
            = Inr (JStr ''ZZ'')"
    unfolding g st by (simp add: unknown_mesh_def example_defs model_defs)
  have r2: "subscript (safe_read_json ''/in'' st (gameobject_files cx ! 0)) ''2_UnityEngine.MeshRenderer''
            = Inr (JArr [JStr ''B2''])"
    unfolding g st by (simp add: unknown_mesh_def example_defs model_defs)
  have r3: "subscript0 (JArr [JStr ''B2'']) = Inr (JStr ''B2'')" by simp
  have k1: "to_key (JStr ''ZZ'') = Inr (KStr ''ZZ'')" and k2: "to_key (JStr ''B2'') = Inr (KStr ''B2'')"
    by simp_all
  have u: "(case map_hash2idx cx (KStr ''ZZ'') of None \<Rightarrow> True
            | Some idx \<Rightarrow> map_idx2filename cx idx = None)
         \<or> (case map_hash2idx cx (KStr ''B2'') of None \<Rightarrow> True
            | Some idx \<Rightarrow> map_idx2filename cx idx = None)"
    using h by simp
  note t = unresolved_checksum_aborts [OF bc i r1 r2 r3 k1 k2 u]
  from t have p: "process_instance cx 0 st = Inl KeyError" by blast
  have "instance_loop cx [0..<0] st = Inr st" by simp
  with t have "organize_crp_assets ''/in'' (Some ''/out'') False (empty_tree unknown_mesh) = Inl KeyError"
    by blast
  with bc g r1 h p show ?thesis by blast
qed

section \<open>Texture resolution\<close>







section \<open>The entry index\<close>

text \<open>
  Claim C9, as stated, has index building raise for every path that contains \<open>entry\<close>
  and is not of the shape \<open>...entry_<digits>_...\<close>. It fails on the file \<open>entry_7\<close>:
  its path contains \<open>entry\<close>, no underscore follows the digit, and line 77 still reads
  the index 7, because \<open>split('_')[0]\<close> of a text without an underscore is the whole
  text. The run completes.
\<close>

theorem entry_name_without_trailing_underscore:
  "contains ''entry'' ''/in/entry_7''
   \<and> \<not> has_entry_form ''/in/entry_7''
   \<and> entry_idx ''/in/entry_7'' = Inr 7
   \<and> map_sum id copy_log
        (organize_crp_assets ''/in'' (Some ''/out'') False (empty_tree entry_without_underscore))
      = Inr [(''/in/header.json'', InBucket OtherB ''header.json''),
             (''/in/entry_7'', InBucket OtherB ''entry_7'')]"
  by (simp add: entry_without_underscore_def example_defs model_defs)

lemma contains_sublist: "contains sub s \<longleftrightarrow> sublist sub s"
  by (induction s) (simp_all add: sublist_Cons_right)

lemma partition_str_None: "sep \<noteq> [] \<Longrightarrow> partition_str sep s = None \<longleftrightarrow> \<not> contains sep s"
  by (induction s) (auto split: option.splits)

lemma entry_idx_no_marker: "\<not> contains ''entry_'' p \<Longrightarrow> entry_idx p = Inl IndexError"
proof -
  assume "\<not> contains ''entry_'' p"
  then have "partition_str ''entry_'' p = None" by (simp add: partition_str_None)
  then have "py_split ''entry_'' p = [p]" by (simp add: py_split.simps)
  then show ?thesis by (simp add: entry_idx_def)
qed

lemma contains_join:
  assumes "contains sub d" and "n = [] \<or> hd n \<noteq> CHR ''/''"
  shows "contains sub (py_join d n)"
proof -
  have "py_join d n = d @ n \<or> py_join d n = d @ (''/'' @ n)"
    using assms(2) by (auto simp: py_join_def)
  then obtain x where x: "py_join d n = d @ x" by blast
  from assms(1) have "sublist sub d" by (simp add: contains_sublist)
  then obtain ps ss where "d = ps @ sub @ ss" by (auto simp: sublist_def)
  then have "d @ x = ps @ sub @ (ss @ x)" by simp
  then have "sublist sub (d @ x)" unfolding sublist_def by blast
  with x show ?thesis by (simp add: contains_sublist)
qed

lemma contains_set: "contains sub s \<Longrightarrow> set sub \<subseteq> set s"
  by (auto simp: contains_sublist sublist_def)

lemma partition_str_first:
  assumes "sep \<noteq> []" and "\<not> contains sep (pre @ butlast sep)"
  shows "partition_str sep (pre @ sep @ rest) = Some (pre, rest)"
  using assms(2)
proof (induction pre)
  case Nil
  from assms(1) obtain c cs where "sep @ rest = c # cs" by (cases sep) auto
  moreover have "prefix sep (sep @ rest)" by simp
  ultimately show ?case by (metis append_Nil append_eq_conv_conj partition_str.simps(2))
next
  case (Cons a pre)
  have np: "\<not> prefix sep ((a # pre) @ sep @ rest)"
  proof
    assume "prefix sep ((a # pre) @ sep @ rest)"
    then have "sep = take (length sep) ((a # pre) @ sep @ rest)"
      by (metis append_eq_conv_conj prefix_def)
    also have "(a # pre) @ sep @ rest = ((a # pre) @ butlast sep) @ (last sep # rest)"
      using assms(1) by simp
    also have "take (length sep) \<dots> = take (length sep) ((a # pre) @ butlast sep)"
    proof -
      define X where "X = (a # pre) @ butlast sep"
      have "length sep \<le> length X" unfolding X_def by simp
      then have "take (length sep) (X @ (last sep # rest)) = take (length sep) X" by simp
      then show ?thesis unfolding X_def .
    qed
    finally have "sep = take (length sep) ((a # pre) @ butlast sep)" .
    then have "prefix sep ((a # pre) @ butlast sep)"
      by (metis take_is_prefix)
    then have "contains sep ((a # pre) @ butlast sep)" by simp
    with Cons.prems show False by simp
  qed
  from Cons.prems have "\<not> contains sep (pre @ butlast sep)" by simp
  from Cons.IH [OF this] np show ?case by simp
qed

lemma partition_str_char:
  "partition_str [c] s =
     (if c \<in> set s then Some (takeWhile (\<lambda>x. x \<noteq> c) s, tl (dropWhile (\<lambda>x. x \<noteq> c) s)) else None)"
  by (induction s) auto

lemma hd_split_char: "hd (py_split [c] s) = takeWhile (\<lambda>x. x \<noteq> c) s"
proof (cases "c \<in> set s")
  case True
  then show ?thesis by (simp add: py_split.simps [of "[c]" s] partition_str_char)
next
  case False
  then have tw: "takeWhile (\<lambda>x. x \<noteq> c) s = s" by (induction s) auto
  from False show ?thesis by (simp add: py_split.simps [of "[c]" s] partition_str_char tw)
qed

lemma partition_str_SomeD:
  "sep \<noteq> [] \<Longrightarrow> partition_str sep s = Some (b, a) \<Longrightarrow> s = b @ sep @ a"
proof (induction s arbitrary: b)
  case Nil
  then show ?case by simp
next
  case (Cons c cs)
  show ?case
  proof (cases "prefix sep (c # cs)")
    case True
    with Cons.prems have "b = []" "a = drop (length sep) (c # cs)" by simp_all
    with True show ?thesis by (metis append_Nil append_eq_conv_conj prefix_def)
  next
    case False
    with Cons.prems obtain b' where b': "partition_str sep cs = Some (b', a)" "b = c # b'"
      by (auto split: option.splits)
    from Cons.IH [OF Cons.prems(1) b'(1)] b'(2) show ?thesis by simp
  qed
qed


lemma py_split_nonempty: "py_split sep s \<noteq> []"
  by (simp add: py_split.simps [of sep s] split: option.splits)

lemma no_marker_without_underscore: "CHR ''_'' \<notin> set s \<Longrightarrow> \<not> contains ''entry_'' s"
proof
  assume n: "CHR ''_'' \<notin> set s" and "contains ''entry_'' s"
  then have "set ''entry_'' \<subseteq> set s" by (rule_tac contains_set)
  with n show False by simp
qed

lemma hd_split_marker:
  "hd (py_split ''entry_'' s) = (case partition_str ''entry_'' s of None \<Rightarrow> s | Some (b, a) \<Rightarrow> b)"
  by (simp add: py_split.simps [of "''entry_''" s] split: option.splits)

lemma takeWhile_all: "c \<notin> set s \<Longrightarrow> takeWhile (\<lambda>x. x \<noteq> c) s = s"
  by (induction s) auto

lemma first_text:
  assumes u: "CHR ''_'' \<notin> set seg"
    and r: "rest = [] \<or> prefix ''_'' rest \<and> \<not> suffix ''entry'' seg \<or> prefix ''entry_'' rest"
  shows "takeWhile (\<lambda>x. x \<noteq> CHR ''_'') (hd (py_split ''entry_'' (seg @ rest))) = seg"
proof -
  from r consider (a) "rest = []" | (b) "prefix ''_'' rest" "\<not> suffix ''entry'' seg"
    | (c) "prefix ''entry_'' rest" by blast
  then show ?thesis
  proof cases
    case a
    from u have "\<not> contains ''entry_'' seg" by (rule no_marker_without_underscore)
    then have "partition_str ''entry_'' seg = None" by (simp add: partition_str_None)
    with a u show ?thesis by (simp add: hd_split_marker takeWhile_all)
  next
    case b
    then obtain r' where r': "rest = CHR ''_'' # r'" by (auto simp: prefix_def)
    have tw: "takeWhile (\<lambda>x. x \<noteq> CHR ''_'') (seg @ rest) = seg"
      using u r' by (simp add: takeWhile_tail takeWhile_all)
    show ?thesis
    proof (cases "partition_str ''entry_'' (seg @ rest)")
      case None
      with tw show ?thesis by (simp add: hd_split_marker)
    next
      case (Some ba)
      obtain b0 a0 where ba: "ba = (b0, a0)" by (cases ba)
      with Some have eq: "seg @ rest = b0 @ ''entry_'' @ a0"
        using partition_str_SomeD [of "''entry_''" "seg @ rest" b0 a0] by simp
      have "takeWhile (\<lambda>x. x \<noteq> CHR ''_'') b0 = seg"
      proof (cases "CHR ''_'' \<in> set b0")
        case True
        then have "takeWhile (\<lambda>x. x \<noteq> CHR ''_'') (b0 @ ''entry_'' @ a0)
            = takeWhile (\<lambda>x. x \<noteq> CHR ''_'') b0"
          by (simp add: takeWhile_append1)
        with tw eq show ?thesis by simp
      next
        case False
        then have "takeWhile (\<lambda>x. x \<noteq> CHR ''_'') ((b0 @ ''entry'') @ CHR ''_'' # a0) = b0 @ ''entry''"
          by (subst takeWhile_tail) (simp_all add: takeWhile_all)
        then have "takeWhile (\<lambda>x. x \<noteq> CHR ''_'') (b0 @ ''entry_'' @ a0) = b0 @ ''entry''"
          by simp
        with tw eq have "seg = b0 @ ''entry''" by simp
        then have "suffix ''entry'' seg" by (simp add: suffix_def)
        with b(2) show ?thesis by simp
      qed
      with Some ba show ?thesis by (simp add: hd_split_marker)
    qed
  next
    case c
    then obtain r' where r': "rest = ''entry_'' @ r'" by (auto simp: prefix_def)
    from u have "CHR ''_'' \<notin> set (seg @ ''entry'')" by simp
    then have "\<not> contains ''entry_'' (seg @ butlast ''entry_'')"
      using no_marker_without_underscore [of "seg @ ''entry''"] by simp
    then have "partition_str ''entry_'' (seg @ ''entry_'' @ r') = Some (seg, r')"
      by (intro partition_str_first) simp_all
    with r' u show ?thesis by (simp add: hd_split_marker takeWhile_all)
  qed
qed

lemma entry_idx_shape:
  assumes f: "\<not> contains ''entry_'' (pre @ ''entry'')"
    and u: "CHR ''_'' \<notin> set seg"
    and r: "rest = [] \<or> prefix ''_'' rest \<and> \<not> suffix ''entry'' seg \<or> prefix ''entry_'' rest"
  shows "entry_idx (pre @ ''entry_'' @ seg @ rest) =
           (case py_int seg of
              None \<Rightarrow> Inl (ValueError ''invalid literal for int()'')
            | Some i \<Rightarrow> Inr i)"
proof -
  from f have "\<not> contains ''entry_'' (pre @ butlast ''entry_'')" by simp
  then have p: "partition_str ''entry_'' (pre @ ''entry_'' @ (seg @ rest)) = Some (pre, seg @ rest)"
    by (intro partition_str_first) simp_all
  obtain p1 ps where s2: "py_split ''entry_'' (seg @ rest) = p1 # ps"
    using py_split_nonempty [of "''entry_''" "seg @ rest"] by (cases "py_split ''entry_'' (seg @ rest)") auto
  have s1: "py_split ''entry_'' (pre @ ''entry_'' @ seg @ rest) = pre # p1 # ps"
    by (subst py_split.simps, simp only: p, simp add: s2)
  obtain q0 qs where s3: "py_split ''_'' p1 = q0 # qs"
    using py_split_nonempty [of "''_''" p1] by (cases "py_split ''_'' p1") auto
  have "q0 = hd (py_split [CHR ''_''] p1)" using s3 by simp
  also have "\<dots> = takeWhile (\<lambda>x. x \<noteq> CHR ''_'') p1" by (rule hd_split_char)
  also have "p1 = hd (py_split ''entry_'' (seg @ rest))" using s2 by simp
  finally have "q0 = seg" using first_text [OF u r] by simp
  with s1 s3 show ?thesis by (simp add: entry_idx_def)
qed

lemma int_body_digits:
  "CHR ''_'' \<notin> set ds \<Longrightarrow> int_body ds = (ds \<noteq> [] \<and> list_all is_digit ds)"
  by (induction ds rule: int_body.induct) auto

lemma int_body_chars: "int_body ds \<Longrightarrow> c \<in> set ds \<Longrightarrow> is_digit c \<or> c = CHR ''_''"
  by (induction ds rule: int_body.induct) (auto split: if_splits)

lemma digit_chars:
  assumes "is_digit c"
  shows "\<not> int_space c" and "c \<noteq> CHR ''+''" and "c \<noteq> CHR ''-''" and "c \<noteq> CHR ''_''"
  using assms by (auto simp: is_digit_def int_space_def)

lemma sign_chars: "\<not> int_space CHR ''+''" "\<not> int_space CHR ''-''"
  by (simp_all add: int_space_def)

lemma dropWhile_keeps: "c \<in> set xs \<Longrightarrow> \<not> P c \<Longrightarrow> c \<in> set (dropWhile P xs)"
  by (induction xs) auto

lemma py_int_accepts:
  assumes w1: "list_all int_space ws1" and w2: "list_all int_space ws2"
    and sg: "sg = [] \<or> sg = ''+'' \<or> sg = ''-''"
    and ne: "ds \<noteq> []" and dg: "list_all is_digit ds"
  shows "py_int (ws1 @ sg @ ds @ ws2) = Some (if sg = ''-'' then - digits_val ds else digits_val ds)"
proof -
  have hdd: "is_digit (hd ds)" and lsd: "is_digit (last ds)"
    using ne dg by (auto simp: list_all_iff)
  have h1: "\<not> int_space (hd (sg @ ds @ ws2))"
    using sg ne hdd by (auto simp: sign_chars digit_chars(1))
  have "dropWhile int_space (ws1 @ sg @ ds @ ws2) = dropWhile int_space (sg @ ds @ ws2)"
    using w1 by (simp add: dropWhile_append list_all_iff)
  also have "\<dots> = sg @ ds @ ws2" using h1 ne by (simp add: dropWhile_eq_self_iff)
  finally have d1: "dropWhile int_space (ws1 @ sg @ ds @ ws2) = sg @ ds @ ws2" .
  have h2: "\<not> int_space (hd (rev ds @ rev sg))"
    using ne lsd by (simp add: hd_rev digit_chars(1))
  have "dropWhile int_space (rev (sg @ ds @ ws2)) = dropWhile int_space (rev ds @ rev sg)"
    using w2 by (simp add: dropWhile_append list_all_iff)
  also have "\<dots> = rev ds @ rev sg" using h2 ne by (simp add: dropWhile_eq_self_iff)
  finally have t: "rev (dropWhile int_space (rev (dropWhile int_space (ws1 @ sg @ ds @ ws2)))) = sg @ ds"
    unfolding d1 by simp
  have nu: "CHR ''_'' \<notin> set ds" using dg digit_chars(4) by (auto simp: list_all_iff)
  then have b: "int_body ds" using ne dg by (simp add: int_body_digits)
  have f: "filter (\<lambda>c. c \<noteq> CHR ''_'') ds = ds" using nu by (induction ds) auto
  from sg show ?thesis
  proof (elim disjE)
    assume "sg = []"
    moreover have "hd ds \<noteq> CHR ''-''" "hd ds \<noteq> CHR ''+''" using hdd digit_chars by blast+
    ultimately show ?thesis unfolding py_int_def t using ne b f by (simp add: Let_def)
  next
    assume "sg = ''+''"
    then show ?thesis unfolding py_int_def t using ne b f by (simp add: Let_def)
  next
    assume "sg = ''-''"
    then show ?thesis unfolding py_int_def t using ne b f by (simp add: Let_def)
  qed
qed

lemma py_int_rejects:
  assumes "seg = [] \<or> (\<exists>c\<in>set seg. \<not> is_digit c \<and> \<not> int_space c \<and> c \<noteq> CHR ''+''
                          \<and> c \<noteq> CHR ''-'' \<and> c \<noteq> CHR ''_'')"
  shows "py_int seg = None"
proof (cases "seg = []")
  case True
  then show ?thesis by (simp add: py_int_def)
next
  case False
  with assms obtain c where c: "c \<in> set seg" "\<not> is_digit c" "\<not> int_space c" "c \<noteq> CHR ''+''"
    "c \<noteq> CHR ''-''" "c \<noteq> CHR ''_''" by blast
  define t where "t = rev (dropWhile int_space (rev (dropWhile int_space seg)))"
  define ds where "ds = (if t \<noteq> [] \<and> (hd t = CHR ''-'' \<or> hd t = CHR ''+'') then tl t else t)"
  from c(1,3) have "c \<in> set (dropWhile int_space seg)" by (rule dropWhile_keeps)
  then have "c \<in> set (rev (dropWhile int_space seg))" by simp
  from this c(3) have "c \<in> set (dropWhile int_space (rev (dropWhile int_space seg)))"
    by (rule dropWhile_keeps)
  then have ct: "c \<in> set t" by (simp add: t_def)
  have "c \<in> set ds"
  proof (cases "t \<noteq> [] \<and> (hd t = CHR ''-'' \<or> hd t = CHR ''+'')")
    case True
    then have "t = hd t # tl t" by simp
    with ct have "c = hd t \<or> c \<in> set (tl t)" by (metis set_ConsD)
    with True c(4,5) have "c \<in> set (tl t)" by auto
    with True show ?thesis by (simp add: ds_def)
  next
    case False
    then have "ds = t" unfolding ds_def by (simp only: if_False)
    with ct show ?thesis by simp
  qed
  with c(2,6) have "\<not> int_body ds" using int_body_chars by blast
  then show ?thesis by (simp add: py_int_def Let_def t_def [symmetric] ds_def [symmetric])
qed

lemma build_idx_maps_first:
  assumes "find (\<lambda>q. contains ''entry'' q \<and> isl (entry_idx q)) fs = Some q"
  shows "build_idx_maps fs m = Inl (projl (entry_idx q))"
  using assms
proof (induction fs arbitrary: m)
  case Nil
  then show ?case by simp
next
  case (Cons f fs)
  obtain i2f f2i where m: "m = (i2f, f2i)" by (cases m)
  show ?case
  proof (cases "contains ''entry'' f")
    case False
    with Cons.prems have "find (\<lambda>q. contains ''entry'' q \<and> isl (entry_idx q)) fs = Some q" by simp
    from Cons.IH [OF this, of m] False m show ?thesis by simp
  next
    case True
    show ?thesis
    proof (cases "entry_idx f")
      case (Inl e)
      with True Cons.prems have "q = f" by simp
      with Inl True m show ?thesis by simp
    next
      case (Inr idx)
      with Cons.prems have "find (\<lambda>q. contains ''entry'' q \<and> isl (entry_idx q)) fs = Some q" by simp
      from Cons.IH [OF this, of "(i2f(idx \<mapsto> f), f2i(f \<mapsto> idx))"] True Inr m
      show ?thesis by simp
    qed
  qed
qed

text \<open>
  Claim C9, amended. The test for \<open>entry\<close> is made on the joined path, so an input
  directory whose own path contains \<open>entry\<close> makes every file an entry file. Line 77
  applies \<open>int()\<close> to the text between the first \<open>entry_\<close> marker and the next
  underscore, the next marker or the end of the path, whichever comes first, and
  \<open>int()\<close> accepts white space around the number and a sign in front of the digits.
  When the output directories were made and some listed path contains \<open>entry\<close> and
  has no \<open>entry_\<close> marker, line 77 raises \<open>IndexError\<close> on it; when that text is
  empty or has a character other than a digit, white space or a sign, it raises
  \<open>ValueError\<close>. In both cases the run ends with the exception of the first listed
  path on which line 77 fails.
\<close>

theorem unparsable_entry_name_aborts:
  assumes "makedirs_all idir (output_dirs (output_dir_of idir out)) st0 = Inr st"
    and "p \<in> set (list_files idir st)"
    and "contains ''entry'' p"
    and "\<not> contains ''entry_'' p
         \<or> (\<exists>pre seg rest. p = pre @ ''entry_'' @ seg @ rest
               \<and> \<not> contains ''entry_'' (pre @ ''entry'')
               \<and> CHR ''_'' \<notin> set seg
               \<and> (rest = [] \<or> prefix ''_'' rest \<and> \<not> suffix ''entry'' seg \<or> prefix ''entry_'' rest)
               \<and> (seg = [] \<or> (\<exists>c\<in>set seg. \<not> is_digit c \<and> \<not> int_space c
                                   \<and> c \<noteq> CHR ''+'' \<and> c \<noteq> CHR ''-'')))"
  shows "entry_idx p = Inl (if contains ''entry_'' p then ValueError ''invalid literal for int()''
                            else IndexError)
       \<and> (\<exists>q e. find (\<lambda>q. contains ''entry'' q \<and> isl (entry_idx q)) (list_files idir st) = Some q
             \<and> entry_idx q = Inl e
             \<and> organize_crp_assets idir out v st0 = Inl e)
       \<and> (\<forall>pre seg rest.
             \<not> contains ''entry_'' (pre @ ''entry'') \<and> CHR ''_'' \<notin> set seg
             \<and> (rest = [] \<or> prefix ''_'' rest \<and> \<not> suffix ''entry'' seg \<or> prefix ''entry_'' rest)
             \<longrightarrow> entry_idx (pre @ ''entry_'' @ seg @ rest) =
                   (case py_int seg of
                      None \<Rightarrow> Inl (ValueError ''invalid literal for int()'')
                    | Some i \<Rightarrow> Inr i))
       \<and> (\<forall>ws1 sg ds ws2.
             list_all int_space ws1 \<and> list_all int_space ws2
             \<and> (sg = [] \<or> sg = ''+'' \<or> sg = ''-'') \<and> ds \<noteq> [] \<and> list_all is_digit ds
             \<longrightarrow> py_int (ws1 @ sg @ ds @ ws2)
                   = Some (if sg = ''-'' then - digits_val ds else digits_val ds))
       \<and> (\<forall>n. contains ''entry'' idir \<and> (n = [] \<or> hd n \<noteq> CHR ''/'')
              \<longrightarrow> contains ''entry'' (py_join idir n))"
proof -
  have 1: "entry_idx p = Inl (if contains ''entry_'' p then ValueError ''invalid literal for int()''
                            else IndexError)"
  proof (cases "contains ''entry_'' p")
    case False
    then show ?thesis by (simp add: entry_idx_no_marker)
  next
    case True
    with assms(4) obtain pre seg rest where s: "p = pre @ ''entry_'' @ seg @ rest"
      "\<not> contains ''entry_'' (pre @ ''entry'')" "CHR ''_'' \<notin> set seg"
      "rest = [] \<or> prefix ''_'' rest \<and> \<not> suffix ''entry'' seg \<or> prefix ''entry_'' rest"
      "seg = [] \<or> (\<exists>c\<in>set seg. \<not> is_digit c \<and> \<not> int_space c \<and> c \<noteq> CHR ''+'' \<and> c \<noteq> CHR ''-'')"
      by blast
    from s(3,5) have "seg = [] \<or> (\<exists>c\<in>set seg. \<not> is_digit c \<and> \<not> int_space c \<and> c \<noteq> CHR ''+''
                          \<and> c \<noteq> CHR ''-'' \<and> c \<noteq> CHR ''_'')" by blast
    then have "py_int seg = None" by (rule py_int_rejects)
    with entry_idx_shape [OF s(2,3,4)] s(1) True show ?thesis by simp
  qed
  have "\<exists>q. find (\<lambda>q. contains ''entry'' q \<and> isl (entry_idx q)) (list_files idir st) = Some q"
  proof (cases "find (\<lambda>q. contains ''entry'' q \<and> isl (entry_idx q)) (list_files idir st)")
    case None
    with assms(2,3) 1 show ?thesis by (auto simp: find_None_iff)
  next
    case (Some q)
    then show ?thesis by simp
  qed
  then obtain q where q: "find (\<lambda>q. contains ''entry'' q \<and> isl (entry_idx q)) (list_files idir st) = Some q"
    by blast
  then have "isl (entry_idx q)" by (auto simp: find_Some_iff)
  then obtain e where e: "entry_idx q = Inl e" by (cases "entry_idx q") auto
  from build_idx_maps_first [OF q, of "(Map.empty, Map.empty)"] e
  have "build_idx_maps (list_files idir st) (Map.empty, Map.empty) = Inl e" by simp
  with assms(1) have "organize_crp_assets idir out v st0 = Inl e"
    by (simp add: organize_crp_assets_def build_context_def)
  with q e have 2: "\<exists>q e. find (\<lambda>q. contains ''entry'' q \<and> isl (entry_idx q)) (list_files idir st) = Some q
             \<and> entry_idx q = Inl e \<and> organize_crp_assets idir out v st0 = Inl e" by blast
  have 3: "\<forall>pre seg rest.
             \<not> contains ''entry_'' (pre @ ''entry'') \<and> CHR ''_'' \<notin> set seg
             \<and> (rest = [] \<or> prefix ''_'' rest \<and> \<not> suffix ''entry'' seg \<or> prefix ''entry_'' rest)
             \<longrightarrow> entry_idx (pre @ ''entry_'' @ seg @ rest) =
                   (case py_int seg of
                      None \<Rightarrow> Inl (ValueError ''invalid literal for int()'')
                    | Some i \<Rightarrow> Inr i)"
    using entry_idx_shape by blast
  have 4: "\<forall>ws1 sg ds ws2.
             list_all int_space ws1 \<and> list_all int_space ws2
             \<and> (sg = [] \<or> sg = ''+'' \<or> sg = ''-'') \<and> ds \<noteq> [] \<and> list_all is_digit ds
             \<longrightarrow> py_int (ws1 @ sg @ ds @ ws2)
                   = Some (if sg = ''-'' then - digits_val ds else digits_val ds)"
    using py_int_accepts by blast
  have 5: "\<forall>n. contains ''entry'' idir \<and> (n = [] \<or> hd n \<noteq> CHR ''/'')
              \<longrightarrow> contains ''entry'' (py_join idir n)"
    by (simp add: contains_join)
  from 1 2 3 4 5 show ?thesis by (intro conjI)
qed

theorem unparsable_entry_name_aborts_witness:
  "organize_crp_assets ''/in'' (Some ''/out'') False (empty_tree entry_with_text)
     = Inl (ValueError ''invalid literal for int()'')
   \<and> entry_idx ''/in/entry_x_entry_5_y.obj'' = Inl (ValueError ''invalid literal for int()'')
   \<and> organize_crp_assets ''/in'' (Some ''/out'') False (empty_tree entry_without_marker)
     = Inl IndexError
   \<and> entry_idx ''/in/entry7.obj'' = Inl IndexError
   \<and> entry_idx ''/in/entry_ -7 _a.obj'' = Inr (- 7)
   \<and> entry_idx ''/in/entry_+12'' = Inr 12"
proof -
  have m: "makedirs_all ''/in'' (output_dirs (output_dir_of ''/in'' (Some ''/out'')))
      (empty_tree entry_with_text) = Inr (empty_tree entry_with_text)"
    by (simp add: entry_with_text_def example_defs model_defs)
  have l: "list_files ''/in'' (empty_tree entry_with_text)
      = [''/in/header.json'', ''/in/entry_x_entry_5_y.obj'']"
    by (simp add: entry_with_text_def example_defs model_defs)
  have p: "''/in/entry_x_entry_5_y.obj'' \<in> set (list_files ''/in'' (empty_tree entry_with_text))"
    unfolding l by simp
  have c: "contains ''entry'' ''/in/entry_x_entry_5_y.obj''" by simp
  have h: "\<not> contains ''entry'' ''/in/header.json''" by simp
  have s: "\<not> contains ''entry_'' ''/in/entry_x_entry_5_y.obj''
         \<or> (\<exists>pre seg rest. ''/in/entry_x_entry_5_y.obj'' = pre @ ''entry_'' @ seg @ rest
               \<and> \<not> contains ''entry_'' (pre @ ''entry'')
               \<and> CHR ''_'' \<notin> set seg
               \<and> (rest = [] \<or> prefix ''_'' rest \<and> \<not> suffix ''entry'' seg \<or> prefix ''entry_'' rest)
               \<and> (seg = [] \<or> (\<exists>c\<in>set seg. \<not> is_digit c \<and> \<not> int_space c
                                   \<and> c \<noteq> CHR ''+'' \<and> c \<noteq> CHR ''-'')))"
  proof -
    have "''/in/entry_x_entry_5_y.obj'' = ''/in/'' @ ''entry_'' @ ''x'' @ ''_entry_5_y.obj''
               \<and> \<not> contains ''entry_'' (''/in/'' @ ''entry'')
               \<and> CHR ''_'' \<notin> set ''x''
               \<and> (''_entry_5_y.obj'' = [] \<or> prefix ''_'' ''_entry_5_y.obj'' \<and> \<not> suffix ''entry'' ''x''
                    \<or> prefix ''entry_'' ''_entry_5_y.obj'')
               \<and> (''x'' = [] \<or> (\<exists>c\<in>set ''x''. \<not> is_digit c \<and> \<not> int_space c
                                   \<and> c \<noteq> CHR ''+'' \<and> c \<noteq> CHR ''-''))"
      by (simp add: is_digit_def int_space_def suffix_to_prefix)
    then show ?thesis by blast
  qed
  note t = unparsable_entry_name_aborts [OF m p c s, of False]
  from t have e1: "entry_idx ''/in/entry_x_entry_5_y.obj'' = Inl (ValueError ''invalid literal for int()'')"
    by simp
  from t obtain q e where q:
    "find (\<lambda>q. contains ''entry'' q \<and> isl (entry_idx q)) (list_files ''/in'' (empty_tree entry_with_text)) = Some q"
    "entry_idx q = Inl e"
    "organize_crp_assets ''/in'' (Some ''/out'') False (empty_tree entry_with_text) = Inl e"
    by blast
  from q(1) e1 have "q = ''/in/entry_x_entry_5_y.obj''" unfolding l by (simp split: if_splits)
  with q(2,3) e1 have r1: "organize_crp_assets ''/in'' (Some ''/out'') False (empty_tree entry_with_text)
     = Inl (ValueError ''invalid literal for int()'')" by simp
  have m2: "makedirs_all ''/in'' (output_dirs (output_dir_of ''/in'' (Some ''/out'')))
      (empty_tree entry_without_marker) = Inr (empty_tree entry_without_marker)"
    by (simp add: entry_without_marker_def example_defs model_defs)
  have l2: "list_files ''/in'' (empty_tree entry_without_marker) = [''/in/header.json'', ''/in/entry7.obj'']"
    by (simp add: entry_without_marker_def example_defs model_defs)
  have p2: "''/in/entry7.obj'' \<in> set (list_files ''/in'' (empty_tree entry_without_marker))"
    unfolding l2 by simp
  have c2: "contains ''entry'' ''/in/entry7.obj''" by simp
  have s2: "\<not> contains ''entry_'' ''/in/entry7.obj''
         \<or> (\<exists>pre seg rest. ''/in/entry7.obj'' = pre @ ''entry_'' @ seg @ rest
               \<and> \<not> contains ''entry_'' (pre @ ''entry'')
               \<and> CHR ''_'' \<notin> set seg
               \<and> (rest = [] \<or> prefix ''_'' rest \<and> \<not> suffix ''entry'' seg \<or> prefix ''entry_'' rest)
               \<and> (seg = [] \<or> (\<exists>c\<in>set seg. \<not> is_digit c \<and> \<not> int_space c
                                   \<and> c \<noteq> CHR ''+'' \<and> c \<noteq> CHR ''-'')))"
    by simp
  note t2 = unparsable_entry_name_aborts [OF m2 p2 c2 s2, of False]
  from t2 have e2: "entry_idx ''/in/entry7.obj'' = Inl IndexError" by simp
  from t2 obtain q2 e' where q2:
    "find (\<lambda>q. contains ''entry'' q \<and> isl (entry_idx q)) (list_files ''/in'' (empty_tree entry_without_marker)) = Some q2"
    "entry_idx q2 = Inl e'"
    "organize_crp_assets ''/in'' (Some ''/out'') False (empty_tree entry_without_marker) = Inl e'"
    by blast
  from q2(1) e2 have "q2 = ''/in/entry7.obj''" unfolding l2 by (simp split: if_splits)
  with q2(2,3) e2 have r2: "organize_crp_assets ''/in'' (Some ''/out'') False (empty_tree entry_without_marker)
     = Inl IndexError" by simp
  from t have sh: "\<And>pre seg rest.
             \<not> contains ''entry_'' (pre @ ''entry'') \<and> CHR ''_'' \<notin> set seg
             \<and> (rest = [] \<or> prefix ''_'' rest \<and> \<not> suffix ''entry'' seg \<or> prefix ''entry_'' rest)
             \<Longrightarrow> entry_idx (pre @ ''entry_'' @ seg @ rest) =
                   (case py_int seg of
                      None \<Rightarrow> Inl (ValueError ''invalid literal for int()'')
                    | Some i \<Rightarrow> Inr i)" by blast
  from t have ac: "\<And>ws1 sg ds ws2.
             list_all int_space ws1 \<and> list_all int_space ws2
             \<and> (sg = [] \<or> sg = ''+'' \<or> sg = ''-'') \<and> ds \<noteq> [] \<and> list_all is_digit ds
             \<Longrightarrow> py_int (ws1 @ sg @ ds @ ws2)
                   = Some (if sg = ''-'' then - digits_val ds else digits_val ds)" by blast
  have "py_int ('' '' @ ''-'' @ ''7'' @ '' '') = Some (if ''-'' = ''-'' then - digits_val ''7'' else digits_val ''7'')"
    by (rule ac) (simp add: int_space_def is_digit_def)
  then have i1: "py_int '' -7 '' = Some (- 7)" by (simp add: digits_val_def)
  have "entry_idx (''/in/'' @ ''entry_'' @ '' -7 '' @ ''_a.obj'') =
          (case py_int '' -7 '' of None \<Rightarrow> Inl (ValueError ''invalid literal for int()'') | Some i \<Rightarrow> Inr i)"
    by (rule sh) (simp add: suffix_to_prefix)
  with i1 have a1: "entry_idx ''/in/entry_ -7 _a.obj'' = Inr (- 7)" by simp
  have "py_int ([] @ ''+'' @ ''12'' @ []) = Some (if ''+'' = ''-'' then - digits_val ''12'' else digits_val ''12'')"
    by (rule ac) (simp add: int_space_def is_digit_def)
  then have i2: "py_int ''+12'' = Some 12" by (simp add: digits_val_def)
  have "entry_idx (''/in/'' @ ''entry_'' @ ''+12'' @ []) =
          (case py_int ''+12'' of None \<Rightarrow> Inl (ValueError ''invalid literal for int()'') | Some i \<Rightarrow> Inr i)"
    by (rule sh) (simp add: suffix_to_prefix)
  with i2 have a2: "entry_idx ''/in/entry_+12'' = Inr 12" by simp
  from r1 e1 r2 e2 a1 a2 show ?thesis by (intro conjI)
qed

section \<open>A material that cannot be read\<close>





section \<open>Names, paths and the directories made\<close>

lemma py_join_valid: "valid_name n \<Longrightarrow> py_join d n = dir_prefix d @ n"
  by (cases n) (auto simp: py_join_def dir_prefix_def valid_name_def)

lemma py_join_inj:
  "valid_name n \<Longrightarrow> valid_name n' \<Longrightarrow> py_join d n = py_join d n' \<longleftrightarrow> n = n'"
  by (simp add: py_join_valid)

lemma basename_no_slash: "CHR ''/'' \<notin> set (basename p)"
proof -
  have "CHR ''/'' \<notin> set (takeWhile (\<lambda>c. c \<noteq> CHR ''/'') (rev p))"
    by (auto dest: set_takeWhileD)
  then show ?thesis by (simp add: basename_def)
qed

lemma basename_join: "valid_name n \<Longrightarrow> basename (py_join d n) = n"
proof -
  assume v: "valid_name n"
  have n: "\<forall>c \<in> set (rev n). c \<noteq> CHR ''/''" using v by (auto simp: valid_name_def)
  have "takeWhile (\<lambda>c. c \<noteq> CHR ''/'') (rev (dir_prefix d)) = []"
    by (cases d rule: rev_cases) (auto simp: dir_prefix_def)
  then have "takeWhile (\<lambda>c. c \<noteq> CHR ''/'') (rev n @ rev (dir_prefix d)) = rev n"
    using n takeWhile_append2 [of "rev n" "\<lambda>c. c \<noteq> CHR ''/''" "rev (dir_prefix d)"] by simp
  then show ?thesis using v by (simp add: basename_def py_join_valid)
qed

lemma read_node_SomeD:
  assumes "read_node d st p = Some nd"
  shows "\<exists>n. (n, nd) \<in> set (entries st) \<and> p = py_join d n"
proof -
  from assms have "(p, nd) \<in> set (map (\<lambda>(n, nd). (py_join d n, nd)) (entries st))"
    unfolding read_node_def by (rule map_of_SomeD)
  then show ?thesis by auto
qed

lemma map_of_joined:
  assumes "list_all (\<lambda>(n, nd). valid_name n) es" and "valid_name n"
  shows "map_of (map (\<lambda>(n, nd). (py_join d n, nd)) es) (py_join d n) = map_of es n"
  using assms(1)
proof (induction es)
  case Nil
  then show ?case by simp
next
  case (Cons e es)
  obtain m nd where e: "e = (m, nd)" by (cases e)
  with Cons.prems have "valid_name m" by simp
  with assms(2) have "py_join d m = py_join d n \<longleftrightarrow> m = n" by (simp add: py_join_inj)
  with Cons e show ?case by auto
qed

lemma read_node_join:
  "valid_names st \<Longrightarrow> valid_name n \<Longrightarrow> read_node d st (py_join d n) = map_of (entries st) n"
  by (simp add: read_node_def valid_names_def map_of_joined)

lemma entry_valid: "valid_names st \<Longrightarrow> (n, nd) \<in> set (entries st) \<Longrightarrow> valid_name n"
  by (auto simp: valid_names_def list_all_iff)

lemma read_node_listed:
  assumes "p \<in> set (list_files d st)"
  shows "read_node d st p \<noteq> None"
proof -
  from assms have "p \<in> fst ` set (map (\<lambda>(n, nd). (py_join d n, nd)) (entries st))"
    by (force simp: list_files_def)
  then show ?thesis unfolding read_node_def by (simp add: map_of_eq_None_iff)
qed

lemma list_files_join: "(n, nd) \<in> set (entries st) \<Longrightarrow> py_join d n \<in> set (list_files d st)"
  by (force simp: list_files_def)

lemma child_of_valid: "child_of d p = Some n \<Longrightarrow> valid_name n"
  by (auto simp: child_of_def valid_name_def Let_def split: if_splits dest: set_takeWhileD)

lemma makedirs_frame:
  "makedirs d p st = Inr st' \<Longrightarrow>
     instances st' = instances st \<and> unassigned st' = unassigned st \<and> copy_log st' = copy_log st"
  by (auto simp: makedirs_def split: option.splits node.splits)

lemma makedirs_valid: "valid_names st \<Longrightarrow> makedirs d p st = Inr st' \<Longrightarrow> valid_names st'"
  by (auto simp: makedirs_def valid_names_def split: option.splits node.splits dest: child_of_valid)

lemma makedirs_keeps:
  "makedirs d p st = Inr st' \<Longrightarrow> map_of (entries st) k = Some v \<Longrightarrow> map_of (entries st') k = Some v"
  by (auto simp: makedirs_def map_add_Some_iff split: option.splits node.splits)

lemma makedirs_makes:
  "makedirs d p st = Inr st' \<Longrightarrow> child_of d p = Some n \<Longrightarrow> map_of (entries st') n = Some Dir"
  by (auto simp: makedirs_def map_add_Some_iff split: option.splits node.splits)

lemma makedirs_all_frame:
  "makedirs_all d ps st = Inr st' \<Longrightarrow>
     instances st' = instances st \<and> unassigned st' = unassigned st \<and> copy_log st' = copy_log st"
proof (induction ps arbitrary: st)
  case Nil
  then show ?case by simp
next
  case (Cons p ps)
  then obtain st1 where 1: "makedirs d p st = Inr st1" and 2: "makedirs_all d ps st1 = Inr st'"
    by (auto split: sum.splits)
  from Cons.IH [OF 2] makedirs_frame [OF 1] show ?case by simp
qed

lemma makedirs_all_valid:
  "valid_names st \<Longrightarrow> makedirs_all d ps st = Inr st' \<Longrightarrow> valid_names st'"
proof (induction ps arbitrary: st)
  case Nil
  then show ?case by simp
next
  case (Cons p ps)
  then obtain st1 where 1: "makedirs d p st = Inr st1" and 2: "makedirs_all d ps st1 = Inr st'"
    by (auto split: sum.splits)
  from makedirs_valid [OF Cons.prems(1) 1] have "valid_names st1" .
  from Cons.IH [OF this 2] show ?case .
qed

lemma makedirs_all_keeps:
  "makedirs_all d ps st = Inr st' \<Longrightarrow> map_of (entries st) k = Some v
     \<Longrightarrow> map_of (entries st') k = Some v"
proof (induction ps arbitrary: st)
  case Nil
  then show ?case by simp
next
  case (Cons p ps)
  then obtain st1 where 1: "makedirs d p st = Inr st1" and 2: "makedirs_all d ps st1 = Inr st'"
    by (auto split: sum.splits)
  from makedirs_keeps [OF 1 Cons.prems(2)] have "map_of (entries st1) k = Some v" .
  from Cons.IH [OF 2 this] show ?case .
qed

lemma makedirs_all_makes:
  "makedirs_all d ps st = Inr st' \<Longrightarrow> p \<in> set ps \<Longrightarrow> child_of d p = Some n
     \<Longrightarrow> map_of (entries st') n = Some Dir"
proof (induction ps arbitrary: st)
  case Nil
  then show ?case by simp
next
  case (Cons q ps)
  then obtain st1 where 1: "makedirs d q st = Inr st1" and 2: "makedirs_all d ps st1 = Inr st'"
    by (auto split: sum.splits)
  show ?case
  proof (cases "p = q")
    case True
    with 1 Cons.prems(3) have "map_of (entries st1) n = Some Dir" by (simp add: makedirs_makes)
    from makedirs_all_keeps [OF 2 this] show ?thesis .
  next
    case False
    with Cons.prems(2) have "p \<in> set ps" by simp
    from Cons.IH [OF 2 this Cons.prems(3)] show ?thesis .
  qed
qed

text \<open>The instance phase copies regular files only, so it never files an entry that is a
  directory.\<close>

lemma child_of_default: "d \<noteq> [] \<Longrightarrow> child_of d (py_join d ''organized'') = Some ''organized''"
  by (simp add: child_of_def py_join_def Let_def)

lemma copy_guarded_unclaimed:
  assumes "copy_guarded d i src st = Inr st'" and "unclaimed n st" and "valid_names st"
    and "map_of (entries st) n = Some Dir" and "valid_name n"
  shows "unclaimed n st'"
proof (cases "instances st i")
  case None
  with assms(1) show ?thesis by (simp add: copy_guarded_def)
next
  case (Some files)
  show ?thesis
  proof (cases "basename src \<in> set (map fst files)")
    case True
    with Some assms(1) have "st' = st" by (simp add: copy_guarded_def)
    with assms(2) show ?thesis by simp
  next
    case False
    with Some assms(1) obtain c where r: "read_node d st src = Some (File c)"
      and st': "st' = st\<lparr>instances := (instances st)(i \<mapsto> files @ [(basename src, c)]),
                        copy_log := copy_log st @ [(src, InInstance i (basename src))]\<rparr>"
      by (auto simp: copy_guarded_def split: option.splits node.splits)
    from read_node_SomeD [OF r] obtain m where m: "(m, File c) \<in> set (entries st)" "src = py_join d m"
      by blast
    from entry_valid [OF assms(3) m(1)] have vm: "valid_name m" .
    with m(2) have b: "basename src = m" by (simp add: basename_join)
    have "map_of (entries st) m = Some (File c)"
      using r m(2) read_node_join [OF assms(3) vm, of d] by simp
    with assms(4) have "m \<noteq> n" by auto
    with vm b assms(2) Some show ?thesis
      unfolding unclaimed_def st' by (auto split: if_splits)
  qed
qed

lemma copy_all_guarded_unclaimed:
  assumes "copy_all_guarded d i srcs st = Inr st'" and "unclaimed n st" and "valid_names st"
    and "map_of (entries st) n = Some Dir" and "valid_name n"
  shows "unclaimed n st'"
  using assms(1-4)
proof (induction srcs arbitrary: st)
  case Nil
  then show ?case by simp
next
  case (Cons src srcs)
  then obtain st1 where 1: "copy_guarded d i src st = Inr st1"
    and 2: "copy_all_guarded d i srcs st1 = Inr st'"
    by (auto split: sum.splits)
  have e: "entries st1 = entries st" using 1 by (rule copy_guarded_entries)
  have u: "unclaimed n st1"
    using 1 Cons.prems(2,3,4) assms(5) by (rule copy_guarded_unclaimed)
  have v: "valid_names st1" using Cons.prems(3) e by (simp add: valid_names_def)
  have m: "map_of (entries st1) n = Some Dir" using Cons.prems(4) e by simp
  from Cons.IH [OF 2 u v m] show ?case .
qed

lemma make_instance_dir_unclaimed: "unclaimed n st \<Longrightarrow> unclaimed n (make_instance_dir i st)"
  by (auto simp: unclaimed_def make_instance_dir_def split: option.splits if_splits)

lemma process_instance_unclaimed:
  assumes "process_instance cx i st = Inr st'" and "unclaimed n st" and "valid_names st"
    and "map_of (entries st) n = Some Dir" and "valid_name n"
  shows "unclaimed n st'"
proof (cases "resolve_instance cx st i")
  case (Inl e)
  with assms(1) show ?thesis by (simp add: process_instance_def)
next
  case (Inr r)
  show ?thesis
  proof (cases r)
    case None
    with Inr assms(1,2) show ?thesis by (simp add: process_instance_def)
  next
    case (Some b)
    with Inr assms(1) have c: "copy_all_guarded (input_dir cx) i
        (object_file b # mesh_file b # material_file b # texture_files b)
        (make_instance_dir i st) = Inr st'"
      by (simp add: process_instance_def materialize_instance_def)
    have u: "unclaimed n (make_instance_dir i st)"
      using assms(2) by (rule make_instance_dir_unclaimed)
    have v: "valid_names (make_instance_dir i st)" using assms(3) by (simp add: valid_names_def)
    have m: "map_of (entries (make_instance_dir i st)) n = Some Dir" using assms(4) by simp
    from copy_all_guarded_unclaimed [OF c u v m assms(5)] show ?thesis .
  qed
qed

lemma instance_loop_unclaimed:
  assumes "instance_loop cx ids st = Inr st'" and "unclaimed n st" and "valid_names st"
    and "map_of (entries st) n = Some Dir" and "valid_name n"
  shows "unclaimed n st'"
  using assms(1-4)
proof (induction ids arbitrary: st)
  case Nil
  then show ?case by simp
next
  case (Cons i ids)
  then obtain st1 where 1: "process_instance cx i st = Inr st1"
    and 2: "instance_loop cx ids st1 = Inr st'"
    by (auto split: sum.splits)
  have e: "entries st1 = entries st" using 1 by (rule process_instance_entries)
  have u: "unclaimed n st1"
    using 1 Cons.prems(2,3,4) assms(5) by (rule process_instance_unclaimed)
  have v: "valid_names st1" using Cons.prems(3) e by (simp add: valid_names_def)
  have m: "map_of (entries st1) n = Some Dir" using Cons.prems(4) e by simp
  from Cons.IH [OF 2 u v m] show ?case .
qed

lemma basename_plain: "CHR ''/'' \<notin> set f \<Longrightarrow> basename f = f"
proof -
  assume "CHR ''/'' \<notin> set f"
  then have "\<forall>c \<in> set (rev f). c \<noteq> CHR ''/''" by auto
  then have "takeWhile (\<lambda>c. c \<noteq> CHR ''/'') (rev f) = rev f"
    by (simp only: takeWhile_eq_all_conv)
  then show ?thesis unfolding basename_def by (simp only: rev_rev_ident)
qed

lemma unclaimedD:
  "unclaimed n st \<Longrightarrow> instances st i = Some files \<Longrightarrow> (f, c) \<in> set files
     \<Longrightarrow> valid_name f \<and> f \<noteq> n"
  by (force simp: unclaimed_def)

lemma assigned_of_dir_D:
  "p \<in> set (assigned_of_dir d st files) \<Longrightarrow>
     \<exists>f c. (f, c) \<in> set files \<and> (p = py_join d (basename f) \<or> p = py_join d f)"
  by (auto simp: assigned_of_dir_def split: if_splits)

lemma assigned_files_D:
  "p \<in> set (assigned_files cx st) \<Longrightarrow>
     \<exists>i files. i < length (gameobject_files cx) \<and> instances st i = Some files
        \<and> p \<in> set (assigned_of_dir (input_dir cx) st files)"
  by (auto simp: assigned_files_def split: option.splits) metis

lemma unclaimed_not_assigned:
  assumes "unclaimed n st" and "valid_name n"
  shows "py_join (input_dir cx) n \<notin> set (assigned_files cx st)"
proof
  assume "py_join (input_dir cx) n \<in> set (assigned_files cx st)"
  then obtain i files where i: "instances st i = Some files"
      "py_join (input_dir cx) n \<in> set (assigned_of_dir (input_dir cx) st files)"
    by (blast dest: assigned_files_D)
  from assigned_of_dir_D [OF i(2)] i(1)
  obtain f c where f: "instances st i = Some files" "(f, c) \<in> set files"
    and p: "py_join (input_dir cx) n = py_join (input_dir cx) (basename f)
          \<or> py_join (input_dir cx) n = py_join (input_dir cx) f"
    by blast
  from unclaimedD [OF assms(1) f] have v: "valid_name f" and ne: "f \<noteq> n"
    by simp_all
  from v have "basename f = f" by (simp add: basename_plain valid_name_def)
  with p have "py_join (input_dir cx) n = py_join (input_dir cx) f" by auto
  with assms(2) v have "n = f" by (simp add: py_join_inj)
  with ne show False by simp
qed

lemma copy2_entries: "copy2 d src st = Inr st' \<Longrightarrow> entries st' = entries st"
  by (auto simp: copy2_def split: option.splits node.splits)

lemma sweep_reaches_directory:
  assumes "p \<in> set fs" and "set fs \<subseteq> set (list_files d st)" and "p \<notin> set assigned"
    and "read_node d st p = Some Dir"
  shows "sweep d assigned fs st = Inl IsADirectoryError"
  using assms
proof (induction fs arbitrary: st)
  case Nil
  then show ?case by simp
next
  case (Cons f fs)
  show ?case
  proof (cases "f \<in> set assigned")
    case True
    with Cons.prems have "p \<in> set fs" by auto
    from Cons.IH [OF this _ Cons.prems(3,4)] Cons.prems(2) True show ?thesis by simp
  next
    case False
    have "read_node d st f \<noteq> None" using Cons.prems(2) by (simp add: read_node_listed)
    then obtain nd where nd: "read_node d st f = Some nd" by blast
    show ?thesis
    proof (cases nd)
      case Dir
      with nd False show ?thesis by (simp add: copy2_def)
    next
      case (File c)
      with nd obtain st1 where c: "copy2 d f st = Inr st1" by (simp add: copy2_def)
      then have e: "entries st1 = entries st" by (rule copy2_entries)
      from File nd Cons.prems(4) have "f \<noteq> p" by auto
      with Cons.prems(1) have 1: "p \<in> set fs" by auto
      have 2: "set fs \<subseteq> set (list_files d st1)" using Cons.prems(2) e by (simp add: list_files_def)
      have 3: "read_node d st1 p = Some Dir"
        using Cons.prems(4) read_node_entries [OF e, of d] by simp
      from Cons.IH [OF 1 2 Cons.prems(3) 3] c False show ?thesis by simp
    qed
  qed
qed

lemma subdirectory_aborts:
  assumes bc: "build_context idir out v st0 = Inr (cx, st)"
    and v: "valid_names st" and n: "valid_name n" and d: "map_of (entries st) n = Some Dir"
    and u: "unclaimed n st"
  shows "(\<forall>st2. instance_loop cx [0..<length (gameobject_files cx)] st = Inr st2 \<longrightarrow>
            sweep idir (assigned_files cx st2) (all_files cx) st2 = Inl IsADirectoryError)
       \<and> (\<exists>e. organize_crp_assets idir out v st0 = Inl e)"
proof -
  have id: "input_dir cx = idir" and af: "all_files cx = list_files idir st"
    using bc by (rule build_context_ctx)+
  have sw: "sweep idir (assigned_files cx st2) (all_files cx) st2 = Inl IsADirectoryError"
    if l: "instance_loop cx [0..<length (gameobject_files cx)] st = Inr st2" for st2
  proof -
    have e: "entries st2 = entries st" using l by (rule instance_loop_entries)
    have u2: "unclaimed n st2" using l u v d n by (rule instance_loop_unclaimed)
    have na: "py_join idir n \<notin> set (assigned_files cx st2)"
      using unclaimed_not_assigned [OF u2 n, of cx] id by simp
    from d obtain "(n, Dir) \<in> set (entries st)" by (auto dest: map_of_SomeD)
    then have inl: "py_join idir n \<in> set (list_files idir st)" by (rule list_files_join)
    have v2: "valid_names st2" using v e by (simp add: valid_names_def)
    have rd: "read_node idir st2 (py_join idir n) = Some Dir"
      using read_node_join [OF v2 n, of idir] d e by simp
    have sub: "set (all_files cx) \<subseteq> set (list_files idir st2)"
      using af e by (simp add: list_files_def)
    from inl af have "py_join idir n \<in> set (all_files cx)" by simp
    from sweep_reaches_directory [OF this sub na rd] show ?thesis .
  qed
  have "\<exists>e. organize_crp_assets idir out v st0 = Inl e"
  proof (cases "instance_loop cx [0..<length (gameobject_files cx)] st")
    case (Inl e)
    with bc show ?thesis by (simp add: organize_crp_assets_def)
  next
    case (Inr st2)
    with bc sw [OF Inr] show ?thesis by (simp add: organize_crp_assets_def)
  qed
  with sw show ?thesis by blast
qed

lemma build_context_cases:
  obtains e where "build_context idir out v st0 = Inl e"
  | cx st where "build_context idir out v st0 = Inr (cx, st)"
  by (cases "build_context idir out v st0") auto

section \<open>Directories among the input files\<close>

text \<open>
  Claim C10. The listing takes every name of the input directory, and the default
  output directory \<open>organized\<close> is made inside the input directory before the listing.
  So, for an input directory given by a non-empty path with the entry names
  \<open>os.listdir\<close> yields, and an output tree in which no instance directory already holds
  a file named \<open>organized\<close>: once the directories are made, \<open>organized\<close> is one of the
  listed files and is a directory; if the run reaches the sweep, the sweep raises
  \<open>IsADirectoryError\<close>; and in every case the run ends with an exception. The same holds,
  with any output directory, for every other subdirectory of the input directory.
\<close>

theorem default_output_directory_aborts:
  assumes "idir \<noteq> []" and "valid_names st0" and "unclaimed ''organized'' st0"
  shows "(\<forall>st. makedirs_all idir (output_dirs (output_dir_of idir None)) st0 = Inr st \<longrightarrow>
            py_join idir ''organized'' \<in> set (list_files idir st)
            \<and> read_node idir st (py_join idir ''organized'') = Some Dir)
       \<and> (\<forall>cx st st2. build_context idir None v st0 = Inr (cx, st)
              \<and> instance_loop cx [0..<length (gameobject_files cx)] st = Inr st2 \<longrightarrow>
            sweep idir (assigned_files cx st2) (all_files cx) st2 = Inl IsADirectoryError)
       \<and> (\<exists>e. organize_crp_assets idir None v st0 = Inl e)
       \<and> (\<forall>out n. valid_name n \<and> map_of (entries st0) n = Some Dir \<and> unclaimed n st0 \<longrightarrow>
            (\<exists>e. organize_crp_assets idir out v st0 = Inl e))"
proof -
  have vo: "valid_name ''organized''" by (simp add: valid_name_def)
  have made: "valid_names st \<and> map_of (entries st) ''organized'' = Some Dir \<and> unclaimed ''organized'' st"
    if m: "makedirs_all idir (output_dirs (output_dir_of idir None)) st0 = Inr st" for st
  proof -
    have "py_join idir ''organized'' \<in> set (output_dirs (output_dir_of idir None))"
      by (simp add: output_dirs_def output_dir_of_def Let_def)
    from makedirs_all_makes [OF m this child_of_default [OF assms(1)]]
    have "map_of (entries st) ''organized'' = Some Dir" .
    moreover have "valid_names st" using assms(2) m by (rule makedirs_all_valid)
    moreover have "unclaimed ''organized'' st"
      using assms(3) makedirs_all_frame [OF m] by (simp add: unclaimed_def)
    ultimately show ?thesis by simp
  qed
  have 1: "py_join idir ''organized'' \<in> set (list_files idir st)
            \<and> read_node idir st (py_join idir ''organized'') = Some Dir"
    if m: "makedirs_all idir (output_dirs (output_dir_of idir None)) st0 = Inr st" for st
  proof -
    from made [OF m] have v: "valid_names st" and d: "map_of (entries st) ''organized'' = Some Dir"
      by simp_all
    from d have "(''organized'', Dir) \<in> set (entries st)" by (rule map_of_SomeD)
    then have "py_join idir ''organized'' \<in> set (list_files idir st)" by (rule list_files_join)
    moreover have "read_node idir st (py_join idir ''organized'') = Some Dir"
      using read_node_join [OF v vo, of idir] d by simp
    ultimately show ?thesis by simp
  qed
  have 2: "sweep idir (assigned_files cx st2) (all_files cx) st2 = Inl IsADirectoryError"
    if "build_context idir None v st0 = Inr (cx, st)
        \<and> instance_loop cx [0..<length (gameobject_files cx)] st = Inr st2" for cx st st2
  proof -
    from that have bc: "build_context idir None v st0 = Inr (cx, st)"
      and l: "instance_loop cx [0..<length (gameobject_files cx)] st = Inr st2" by simp_all
    from made [OF build_context_ctx(4) [OF bc]]
    have "valid_names st" "map_of (entries st) ''organized'' = Some Dir" "unclaimed ''organized'' st"
      by simp_all
    from subdirectory_aborts [OF bc this(1) vo this(2,3)] l show ?thesis by blast
  qed
  have 3: "\<exists>e. organize_crp_assets idir None v st0 = Inl e"
  proof (rule build_context_cases [of idir None v st0])
    fix e assume "build_context idir None v st0 = Inl e"
    then show ?thesis by (simp add: organize_crp_assets_def)
  next
    fix cx st assume bc: "build_context idir None v st0 = Inr (cx, st)"
    from made [OF build_context_ctx(4) [OF bc]]
    have "valid_names st" "map_of (entries st) ''organized'' = Some Dir" "unclaimed ''organized'' st"
      by simp_all
    from subdirectory_aborts [OF bc this(1) vo this(2,3)] show ?thesis by blast
  qed
  have 4: "\<exists>e. organize_crp_assets idir out v st0 = Inl e"
    if "valid_name n \<and> map_of (entries st0) n = Some Dir \<and> unclaimed n st0" for out n
  proof (rule build_context_cases [of idir out v st0])
    fix e assume "build_context idir out v st0 = Inl e"
    then show ?thesis by (simp add: organize_crp_assets_def)
  next
    fix cx st assume bc: "build_context idir out v st0 = Inr (cx, st)"
    note m = build_context_ctx(4) [OF bc]
    have v: "valid_names st" using assms(2) m by (rule makedirs_all_valid)
    have d: "map_of (entries st) n = Some Dir" using m that by (simp add: makedirs_all_keeps)
    have u: "unclaimed n st" using that makedirs_all_frame [OF m] by (simp add: unclaimed_def)
    from that have "valid_name n" by simp
    from subdirectory_aborts [OF bc v this d u] show ?thesis by blast
  qed
  from 1 2 3 4 show ?thesis by blast
qed

theorem default_output_directory_aborts_witness:
  "valid_names (empty_tree scenario) \<and> unclaimed ''organized'' (empty_tree scenario)
   \<and> organize_crp_assets ''/in'' None False (empty_tree scenario) = Inl IsADirectoryError"
proof -
  have d: "''/in'' \<noteq> []" by simp
  have v: "valid_names (empty_tree scenario)"
    by (simp add: valid_names_def valid_name_def scenario_def example_defs)
  have u: "unclaimed ''organized'' (empty_tree scenario)"
    by (simp add: unclaimed_def empty_tree_def)
  from default_output_directory_aborts [OF d v u, of False]
  obtain e where e: "organize_crp_assets ''/in'' None False (empty_tree scenario) = Inl e" by blast
  have "organize_crp_assets ''/in'' None False (empty_tree scenario) = Inl IsADirectoryError"
    by (simp add: scenario_def example_defs model_defs)
  with e v u show ?thesis by simp
qed

end
